theory Spec2Isabelle
  imports Main "HOL-Library.Word" "HOL-Library.Signed_Division"
begin

unbundle bit_operations_syntax

section \<open>Machine integers, errors and array access\<close>

text \<open>
  Go's \<open>byte\<close>/\<open>uint8\<close> is an 8-bit word, \<open>int32\<close> and \<open>uint32\<close> are 32-bit words
  (read signed through \<open>sint\<close>, unsigned through \<open>unat\<close>), \<open>uint16\<close> a 16-bit word.
  Go's \<open>int\<close> (64 bits; qualities, coordinates, spectral bounds, component numbers) is
  modelled as \<open>int\<close>: none of the values the encoder computes with it leaves 64 bits.
  A block is the \<open>[64]int32\<close> array of the source, as a list.
\<close>

type_synonym byte = "8 word"
type_synonym int32 = "32 word"
type_synonym uint32 = "32 word"
type_synonym uint16 = "16 word"
type_synonym block = "int32 list"

text \<open>
  Errors are values. \<open>Panic\<close> is a Go run-time panic (index out of range, division by
  zero), \<open>WriteError\<close> an error returned by the underlying sink, \<open>EncodeError\<close> an
  \<open>errors.New\<close> of the encoder, \<open>ScanError i\<close> a \<open>fmt.Errorf\<close> of
  \<open>validateScanScript\<close> about scan \<open>i\<close>; \<open>FormatError\<close> and \<open>UnsupportedError\<close> are the
  decoder's two error types, \<open>UnexpectedEOF\<close> the error of a read past the end of the input.
\<close>

datatype error =
    Panic string
  | WriteError
  | EncodeError string
  | ScanError nat string
  | FormatError string
  | UnsupportedError string
  | UnexpectedEOF

definition bindE :: "error + 'a \<Rightarrow> ('a \<Rightarrow> error + 'b) \<Rightarrow> error + 'b" where
  "bindE m f = (case m of Inl x \<Rightarrow> Inl x | Inr a \<Rightarrow> f a)"

text \<open>Indexing an array or slice with a Go \<open>int\<close>: out of range panics.\<close>

definition idx :: "'a list \<Rightarrow> int \<Rightarrow> error + 'a" where
  "idx xs i = (if 0 \<le> i \<and> i < int (length xs) then Inr (xs ! nat i)
               else Inl (Panic ''index out of range''))"

text \<open>Go's \<open>/\<close> on \<open>int32\<close>: truncation towards zero, panic on a zero divisor.\<close>

definition quo32 :: "int32 \<Rightarrow> int32 \<Rightarrow> error + int32" where
  "quo32 a b = (if b = 0 then Inl (Panic ''integer divide by zero'')
                else Inr (word_of_int (sint a sdiv sint b)))"

text \<open>\<open>div\<close> of the source: \<open>a/b\<close> rounded to the nearest integer.\<close>

definition div32 :: "int32 \<Rightarrow> int32 \<Rightarrow> error + int32" where
  "div32 a b = (if 0 \<le> sint a then quo32 (a + signed_drop_bit 1 b) b
                else bindE (quo32 (- a + signed_drop_bit 1 b) b) (\<lambda>r. Inr (- r)))"

section \<open>Constant tables of the encoder\<close>

definition blockSize :: nat where
  "blockSize = 64"

text \<open>\<open>bitCount\<close> counts the number of bits needed to hold an integer below 256.\<close>

definition bitCount :: "byte list" where
  "bitCount = [
    0, 1, 2, 2, 3, 3, 3, 3, 4, 4, 4, 4, 4, 4, 4, 4,
    5, 5, 5, 5, 5, 5, 5, 5, 5, 5, 5, 5, 5, 5, 5, 5,
    6, 6, 6, 6, 6, 6, 6, 6, 6, 6, 6, 6, 6, 6, 6, 6,
    6, 6, 6, 6, 6, 6, 6, 6, 6, 6, 6, 6, 6, 6, 6, 6,
    7, 7, 7, 7, 7, 7, 7, 7, 7, 7, 7, 7, 7, 7, 7, 7,
    7, 7, 7, 7, 7, 7, 7, 7, 7, 7, 7, 7, 7, 7, 7, 7,
    7, 7, 7, 7, 7, 7, 7, 7, 7, 7, 7, 7, 7, 7, 7, 7,
    7, 7, 7, 7, 7, 7, 7, 7, 7, 7, 7, 7, 7, 7, 7, 7,
    8, 8, 8, 8, 8, 8, 8, 8, 8, 8, 8, 8, 8, 8, 8, 8,
    8, 8, 8, 8, 8, 8, 8, 8, 8, 8, 8, 8, 8, 8, 8, 8,
    8, 8, 8, 8, 8, 8, 8, 8, 8, 8, 8, 8, 8, 8, 8, 8,
    8, 8, 8, 8, 8, 8, 8, 8, 8, 8, 8, 8, 8, 8, 8, 8,
    8, 8, 8, 8, 8, 8, 8, 8, 8, 8, 8, 8, 8, 8, 8, 8,
    8, 8, 8, 8, 8, 8, 8, 8, 8, 8, 8, 8, 8, 8, 8, 8,
    8, 8, 8, 8, 8, 8, 8, 8, 8, 8, 8, 8, 8, 8, 8, 8,
    8, 8, 8, 8, 8, 8, 8, 8, 8, 8, 8, 8, 8, 8, 8, 8]"

text \<open>
  \<open>unscaledQuant\<close>: the unscaled quantization tables in zig-zag order, luminance
  (index 0) then chrominance (index 1).
\<close>

definition unscaledQuant :: "byte list list" where
  "unscaledQuant = [
    [16, 11, 12, 14, 12, 10, 16, 14,
     13, 14, 18, 17, 16, 19, 24, 40,
     26, 24, 22, 22, 24, 49, 35, 37,
     29, 40, 58, 51, 61, 60, 57, 51,
     56, 55, 64, 72, 92, 78, 64, 68,
     87, 69, 55, 56, 80, 109, 81, 87,
     95, 98, 103, 104, 103, 62, 77, 113,
     121, 112, 100, 120, 92, 101, 103, 99],
    [17, 18, 18, 24, 21, 24, 47, 26,
     26, 47, 99, 66, 56, 66, 99, 99,
     99, 99, 99, 99, 99, 99, 99, 99,
     99, 99, 99, 99, 99, 99, 99, 99,
     99, 99, 99, 99, 99, 99, 99, 99,
     99, 99, 99, 99, 99, 99, 99, 99,
     99, 99, 99, 99, 99, 99, 99, 99,
     99, 99, 99, 99, 99, 99, 99, 99]]"

section \<open>Huffman specifications and look-up tables\<close>

text \<open>
  \<open>huffmanSpec\<close>: \<open>count ! i\<close> is the number of codes of length \<open>i+1\<close> bits, \<open>val ! i\<close>
  the decoded value of the \<open>i\<close>-th codeword (field \<open>value\<close> of the source).
\<close>

record huffmanSpec =
  count :: "byte list"
  val :: "byte list"

definition huffIndexLuminanceDC :: int where "huffIndexLuminanceDC = 0"
definition huffIndexLuminanceAC :: int where "huffIndexLuminanceAC = 1"
definition huffIndexChrominanceDC :: int where "huffIndexChrominanceDC = 2"
definition huffIndexChrominanceAC :: int where "huffIndexChrominanceAC = 3"

definition theHuffmanSpec :: "huffmanSpec list" where
  "theHuffmanSpec = [
    \<lparr>count = [0, 1, 5, 1, 1, 1, 1, 1, 1, 0, 0, 0, 0, 0, 0, 0],
     val = [0, 1, 2, 3, 4, 5, 6, 7, 8, 9, 10, 11]\<rparr>,
    \<lparr>count = [0, 2, 1, 3, 3, 2, 4, 3, 5, 5, 4, 4, 0, 0, 1, 125],
     val = [
      0x01, 0x02, 0x03, 0x00, 0x04, 0x11, 0x05, 0x12,
      0x21, 0x31, 0x41, 0x06, 0x13, 0x51, 0x61, 0x07,
      0x22, 0x71, 0x14, 0x32, 0x81, 0x91, 0xa1, 0x08,
      0x23, 0x42, 0xb1, 0xc1, 0x15, 0x52, 0xd1, 0xf0,
      0x24, 0x33, 0x62, 0x72, 0x82, 0x09, 0x0a, 0x16,
      0x17, 0x18, 0x19, 0x1a, 0x25, 0x26, 0x27, 0x28,
      0x29, 0x2a, 0x34, 0x35, 0x36, 0x37, 0x38, 0x39,
      0x3a, 0x43, 0x44, 0x45, 0x46, 0x47, 0x48, 0x49,
      0x4a, 0x53, 0x54, 0x55, 0x56, 0x57, 0x58, 0x59,
      0x5a, 0x63, 0x64, 0x65, 0x66, 0x67, 0x68, 0x69,
      0x6a, 0x73, 0x74, 0x75, 0x76, 0x77, 0x78, 0x79,
      0x7a, 0x83, 0x84, 0x85, 0x86, 0x87, 0x88, 0x89,
      0x8a, 0x92, 0x93, 0x94, 0x95, 0x96, 0x97, 0x98,
      0x99, 0x9a, 0xa2, 0xa3, 0xa4, 0xa5, 0xa6, 0xa7,
      0xa8, 0xa9, 0xaa, 0xb2, 0xb3, 0xb4, 0xb5, 0xb6,
      0xb7, 0xb8, 0xb9, 0xba, 0xc2, 0xc3, 0xc4, 0xc5,
      0xc6, 0xc7, 0xc8, 0xc9, 0xca, 0xd2, 0xd3, 0xd4,
      0xd5, 0xd6, 0xd7, 0xd8, 0xd9, 0xda, 0xe1, 0xe2,
      0xe3, 0xe4, 0xe5, 0xe6, 0xe7, 0xe8, 0xe9, 0xea,
      0xf1, 0xf2, 0xf3, 0xf4, 0xf5, 0xf6, 0xf7, 0xf8,
      0xf9, 0xfa]\<rparr>,
    \<lparr>count = [0, 3, 1, 1, 1, 1, 1, 1, 1, 1, 1, 0, 0, 0, 0, 0],
     val = [0, 1, 2, 3, 4, 5, 6, 7, 8, 9, 10, 11]\<rparr>,
    \<lparr>count = [0, 2, 1, 2, 4, 4, 3, 4, 7, 5, 4, 4, 0, 1, 2, 119],
     val = [
      0x00, 0x01, 0x02, 0x03, 0x11, 0x04, 0x05, 0x21,
      0x31, 0x06, 0x12, 0x41, 0x51, 0x07, 0x61, 0x71,
      0x13, 0x22, 0x32, 0x81, 0x08, 0x14, 0x42, 0x91,
      0xa1, 0xb1, 0xc1, 0x09, 0x23, 0x33, 0x52, 0xf0,
      0x15, 0x62, 0x72, 0xd1, 0x0a, 0x16, 0x24, 0x34,
      0xe1, 0x25, 0xf1, 0x17, 0x18, 0x19, 0x1a, 0x26,
      0x27, 0x28, 0x29, 0x2a, 0x35, 0x36, 0x37, 0x38,
      0x39, 0x3a, 0x43, 0x44, 0x45, 0x46, 0x47, 0x48,
      0x49, 0x4a, 0x53, 0x54, 0x55, 0x56, 0x57, 0x58,
      0x59, 0x5a, 0x63, 0x64, 0x65, 0x66, 0x67, 0x68,
      0x69, 0x6a, 0x73, 0x74, 0x75, 0x76, 0x77, 0x78,
      0x79, 0x7a, 0x82, 0x83, 0x84, 0x85, 0x86, 0x87,
      0x88, 0x89, 0x8a, 0x92, 0x93, 0x94, 0x95, 0x96,
      0x97, 0x98, 0x99, 0x9a, 0xa2, 0xa3, 0xa4, 0xa5,
      0xa6, 0xa7, 0xa8, 0xa9, 0xaa, 0xb2, 0xb3, 0xb4,
      0xb5, 0xb6, 0xb7, 0xb8, 0xb9, 0xba, 0xc2, 0xc3,
      0xc4, 0xc5, 0xc6, 0xc7, 0xc8, 0xc9, 0xca, 0xd2,
      0xd3, 0xd4, 0xd5, 0xd6, 0xd7, 0xd8, 0xd9, 0xda,
      0xe2, 0xe3, 0xe4, 0xe5, 0xe6, 0xe7, 0xe8, 0xe9,
      0xea, 0xf2, 0xf3, 0xf4, 0xf5, 0xf6, 0xf7, 0xf8,
      0xf9, 0xfa]\<rparr>]"

text \<open>
  \<open>huffmanLUT.init\<close>. The look-up table has one \<open>uint32\<close> per value up to the largest
  value of the specification: the 8 most significant bits hold the codeword size, the 24
  least significant bits the codeword. \<open>initInner\<close> is the loop over \<open>j\<close> (it runs
  \<open>count[i]\<close> times), \<open>initOuter\<close> the loop over \<open>i\<close>; the state is \<open>(h, code, k)\<close>.
\<close>

type_synonym huffmanLUT = "uint32 list"

fun initInner :: "byte list \<Rightarrow> uint32 \<Rightarrow> nat \<Rightarrow> huffmanLUT \<times> uint32 \<times> int
    \<Rightarrow> error + (huffmanLUT \<times> uint32 \<times> int)" where
  "initInner vs nb 0 (h, code, k) = Inr (h, code, k)"
| "initInner vs nb (Suc c) (h, code, k) =
     bindE (idx vs k) (\<lambda>v.
       if unat v < length h
       then initInner vs nb c (h[unat v := nb OR code], code + 1, k + 1)
       else Inl (Panic ''index out of range''))"

fun initOuter :: "huffmanSpec \<Rightarrow> nat list \<Rightarrow> huffmanLUT \<times> uint32 \<times> int
    \<Rightarrow> error + (huffmanLUT \<times> uint32 \<times> int)" where
  "initOuter s [] st = Inr st"
| "initOuter s (i # rest) st =
     bindE (initInner (val s) (push_bit 24 (of_nat (i + 1))) (unat (count s ! i)) st)
       (\<lambda>(h, code, k). initOuter s rest (h, push_bit 1 code, k))"

definition huffmanLUT_init :: "huffmanSpec \<Rightarrow> error + huffmanLUT" where
  "huffmanLUT_init s =
     (let maxValue = fold (\<lambda>v m. if unat v > m then unat v else m) (val s) 0
      in bindE (initOuter s [0..<length (count s)] (replicate (maxValue + 1) 0, 0, 0))
           (\<lambda>(h, code, k). Inr h))"

text \<open>
  \<open>theHuffmanLUT\<close> is filled by the package's \<open>init\<close> function before anything else
  runs; a panic there would stop the program before any call of the encoder.
\<close>

definition theHuffmanLUT :: "huffmanLUT list" where
  "theHuffmanLUT = map (\<lambda>s. case huffmanLUT_init s of Inr h \<Rightarrow> h | Inl x \<Rightarrow> []) theHuffmanSpec"

section \<open>The writer and the encoder state\<close>

text \<open>
  The sink behind the encoder (\<open>writer\<close>: \<open>Flush\<close>, \<open>Write\<close>, \<open>WriteByte\<close>) is an object of
  the caller. Its model is the list of bytes it has accepted so far together with its
  behaviour: \<open>accepts bs b\<close> tells whether, having accepted \<open>bs\<close>, it accepts the byte \<open>b\<close>
  or returns an error; \<open>flushes bs\<close> whether \<open>Flush\<close> succeeds.
\<close>

record writer =
  accepted :: "byte list"
  accepts :: "byte list \<Rightarrow> byte \<Rightarrow> bool"
  flushes :: "byte list \<Rightarrow> bool"

definition WriteByte :: "writer \<Rightarrow> byte \<Rightarrow> error option \<times> writer" where
  "WriteByte wr b =
     (if accepts wr (accepted wr) b then (None, wr\<lparr>accepted := accepted wr @ [b]\<rparr>)
      else (Some WriteError, wr))"

text \<open>\<open>Write(p)\<close> hands over the bytes of \<open>p\<close> in order and stops at the first one refused.\<close>

fun Write :: "writer \<Rightarrow> byte list \<Rightarrow> error option \<times> writer" where
  "Write wr [] = (None, wr)"
| "Write wr (b # p) =
     (case WriteByte wr b of
        (None, wr') \<Rightarrow> Write wr' p
      | (Some x, wr') \<Rightarrow> (Some x, wr'))"

definition Flush :: "writer \<Rightarrow> error option" where
  "Flush wr = (if flushes wr (accepted wr) then None else Some WriteError)"

text \<open>
  The \<open>encoder\<close> struct. \<open>err\<close> is the first error met while writing; \<open>bits\<close> and \<open>nBits\<close>
  are the accumulated bits to write; \<open>quant\<close> the scaled quantization tables in zig-zag
  order. The scratch buffer \<open>buf\<close> of the source is written and handed to \<open>write\<close> within
  one method each time, so the model passes those bytes to \<open>write\<close> directly
  (\<open>writeBytes\<close> is the method \<open>write\<close>, renamed because \<open>write\<close> is a command of Isabelle).
\<close>

record encoder =
  w :: writer
  err :: "error option"
  bits :: uint32
  nBits :: uint32
  quant :: "byte list list"

definition flush :: "encoder \<Rightarrow> encoder" where
  "flush e = (if err e \<noteq> None then e else e\<lparr>err := Flush (w e)\<rparr>)"

definition writeBytes :: "encoder \<Rightarrow> byte list \<Rightarrow> encoder" where
  "writeBytes e p = (if err e \<noteq> None then e
                else (case Write (w e) p of (r, wr') \<Rightarrow> e\<lparr>w := wr', err := r\<rparr>))"

definition writeByte :: "encoder \<Rightarrow> byte \<Rightarrow> encoder" where
  "writeByte e b = (if err e \<noteq> None then e
                    else (case WriteByte (w e) b of (r, wr') \<Rightarrow> e\<lparr>w := wr', err := r\<rparr>))"

section \<open>Bit-level emission\<close>

text \<open>
  \<open>emit\<close> emits the least significant \<open>n\<close> bits of \<open>v\<close> to the bit-stream. \<open>emit_loop\<close> is
  its \<open>for nBits >= 8\<close> loop on the local variables \<open>bits\<close> (here \<open>acc\<close>) and \<open>nBits\<close>
  (here \<open>n\<close>), ending with the assignment \<open>e.bits, e.nBits = bits, nBits\<close>. A shift of a
  \<open>uint32\<close> by 32 or more gives 0 in Go as it does for \<open>push_bit\<close> on a 32-bit word.
\<close>

function emit_loop :: "encoder \<Rightarrow> uint32 \<Rightarrow> uint32 \<Rightarrow> encoder" where
  "emit_loop e acc n =
     (if 8 \<le> n then
        (let b = (ucast (drop_bit 24 acc) :: byte);
             e1 = writeByte e b;
             e2 = (if b = 0xff then writeByte e1 0x00 else e1)
         in emit_loop e2 (push_bit 8 acc) (n - 8))
      else e\<lparr>bits := acc, nBits := n\<rparr>)"
  by pat_completeness auto
termination
  by (relation "measure (\<lambda>(e, acc, n). unat n)") (auto simp: unat_sub word_le_nat_alt)

declare emit_loop.simps [simp del]

definition emit :: "encoder \<Rightarrow> uint32 \<Rightarrow> uint32 \<Rightarrow> encoder" where
  "emit e v n =
     (let n' = n + nBits e;
          acc = push_bit (unat (32 - n')) v OR bits e
      in emit_loop e acc n')"

text \<open>\<open>emitHuff\<close> emits the given value with the given Huffman encoder.\<close>

definition emitHuff :: "encoder \<Rightarrow> int \<Rightarrow> int32 \<Rightarrow> error + encoder" where
  "emitHuff e h v =
     bindE (idx theHuffmanLUT h) (\<lambda>lut.
     bindE (idx lut (sint v)) (\<lambda>x.
       Inr (emit e (x AND (push_bit 24 1 - 1)) (drop_bit 24 x))))"

text \<open>
  \<open>emitHuffRLE\<close> emits a run of \<open>runLength\<close> copies of \<open>v\<close> encoded with the given Huffman
  encoder. \<open>a >> 8\<close> on an \<open>int32\<close> is the arithmetic shift.
\<close>

definition emitHuffRLE :: "encoder \<Rightarrow> int \<Rightarrow> int32 \<Rightarrow> int32 \<Rightarrow> error + encoder" where
  "emitHuffRLE e h runLength v =
     (let (a, b) = (if sint v < 0 then (- v, v - 1) else (v, v))
      in bindE (if sint a < 0x100
                then bindE (idx bitCount (sint a)) (\<lambda>c. Inr (ucast c :: uint32))
                else bindE (idx bitCount (sint (signed_drop_bit 8 a)))
                       (\<lambda>c. Inr (8 + (ucast c :: uint32))))
           (\<lambda>nb.
              bindE (emitHuff e h (push_bit 4 runLength OR nb)) (\<lambda>e1.
                if 0 < nb
                then Inr (emit e1 (b AND (push_bit (unat nb) 1 - 1)) nb)
                else Inr e1)))"

section \<open>Declarations of the package that the encoder uses\<close>

text \<open>
  The forward transform \<open>fdct\<close>, the zig-zag table \<open>unzig\<close> (a \<open>[blockSize]int\<close>) and the
  marker constants are declared in files of the package other than the encoder. The
  encoder's functions take them as the parameter \<open>x\<close>.
\<close>

record extern =
  fdct :: "block \<Rightarrow> block"
  unzig :: "int list"
  sof0Marker :: byte
  sof2Marker :: byte
  dhtMarker :: byte
  dqtMarker :: byte

section \<open>Markers\<close>

definition nQuantIndex :: int where
  "nQuantIndex = 2"

text \<open>\<open>writeMarkerHeader\<close> writes the header for a marker with the given length.\<close>

definition writeMarkerHeader :: "encoder \<Rightarrow> byte \<Rightarrow> int \<Rightarrow> encoder" where
  "writeMarkerHeader e marker markerlen =
     writeBytes e [0xff, marker, word_of_int (drop_bit 8 markerlen),
                   word_of_int (markerlen AND 0xff)]"

text \<open>\<open>writeDQT\<close> writes the Define Quantization Table marker.\<close>

definition writeDQT :: "extern \<Rightarrow> encoder \<Rightarrow> encoder" where
  "writeDQT x e =
     fold (\<lambda>i e'. writeBytes (writeByte e' (of_nat i)) (quant e' ! i))
       [0..<length (quant e)]
       (writeMarkerHeader e (dqtMarker x) (2 + nQuantIndex * (1 + int blockSize)))"

text \<open>
  \<open>writeSOF\<close> writes the Start Of Frame marker. The bytes are those put into \<open>e.buf\<close>; the
  string indexed by \<open>i\<close> has three characters, so a fourth component panics, and the slice
  \<open>e.buf[:3*(nComponent-1)+9]\<close> panics when its bound is negative.
\<close>

definition writeSOF :: "encoder \<Rightarrow> int \<Rightarrow> int \<Rightarrow> int \<Rightarrow> byte \<Rightarrow> error + encoder" where
  "writeSOF e sizeX sizeY nComponent marker =
     (let e1 = writeMarkerHeader e marker (8 + 3 * nComponent);
          hd6 = [8, word_of_int (drop_bit 8 sizeY), word_of_int (sizeY AND 0xff),
                 word_of_int (drop_bit 8 sizeX), word_of_int (sizeX AND 0xff),
                 word_of_int nComponent]
      in if nComponent = 1 then Inr (writeBytes e1 (hd6 @ [1, 0x11, 0x00]))
         else if 3 < nComponent then Inl (Panic ''index out of range'')
         else if 3 * (nComponent - 1) + 9 < 0 then Inl (Panic ''slice bounds out of range'')
         else Inr (writeBytes e1
                (take (nat (3 * (nComponent - 1) + 9))
                   (hd6 @ concat (map (\<lambda>i. [of_nat (i + 1), [0x22, 0x11, 0x11] ! i,
                                               [0x00, 0x01, 0x01] ! i])
                                   [0..<nat nComponent])))))"

text \<open>\<open>writeDHT\<close> writes the Define Huffman Table marker.\<close>

definition writeDHT :: "extern \<Rightarrow> encoder \<Rightarrow> int \<Rightarrow> encoder" where
  "writeDHT x e nComponent =
     (let specs = (if nComponent = 1 then take 2 theHuffmanSpec else theHuffmanSpec);
          markerlen = fold (\<lambda>s l. l + (1 + 16 + int (length (val s)))) specs 2
      in fold (\<lambda>(i, s) e'.
                 writeBytes (writeBytes (writeByte e' ([0x00, 0x10, 0x01, 0x11] ! i)) (count s))
                   (val s))
           (zip [0..<length specs] specs)
           (writeMarkerHeader e (dhtMarker x) markerlen))"

section \<open>Writing the coefficients of a block\<close>

text \<open>
  The quantized coefficient at zig-zag position \<open>zig\<close>:
  \<open>div(b[unzig[zig]], 8*int32(e.quant[q][zig]))\<close>, with the index checks of Go.
\<close>

definition coef :: "extern \<Rightarrow> encoder \<Rightarrow> block \<Rightarrow> int \<Rightarrow> int \<Rightarrow> error + int32" where
  "coef x e b q zig =
     bindE (idx (unzig x) zig) (\<lambda>u.
     bindE (idx b u) (\<lambda>c.
     bindE (idx (quant e) q) (\<lambda>qt.
     bindE (idx qt zig) (\<lambda>qv.
       div32 c (8 * (ucast qv :: int32))))))"

text \<open>The quantized DC value \<open>div(b[0], 8*int32(e.quant[q][0]))\<close>.\<close>

definition coefDC :: "encoder \<Rightarrow> block \<Rightarrow> int \<Rightarrow> error + int32" where
  "coefDC e b q =
     bindE (idx b 0) (\<lambda>c.
     bindE (idx (quant e) q) (\<lambda>qt.
     bindE (idx qt 0) (\<lambda>qv.
       div32 c (8 * (ucast qv :: int32)))))"

text \<open>
  The loop \<open>for runLength > 15 { e.emitHuff(h, 0xf0); runLength -= 16 }\<close>. The
  \<open>int32\<close> counter \<open>runLength\<close> counts positions of one block, stays below 64 and is
  modelled as \<open>int\<close>, as is the Go \<open>int\<close> \<open>zig\<close>.
\<close>

function zrlLoop :: "encoder \<Rightarrow> int \<Rightarrow> int \<Rightarrow> error + (encoder \<times> int)" where
  "zrlLoop e h r =
     (if 15 < r then
        (case emitHuff e h 0xf0 of
           Inl p \<Rightarrow> Inl p
         | Inr e1 \<Rightarrow> zrlLoop e1 h (r - 16))
      else Inr (e, r))"
  by pat_completeness auto
termination
  by (relation "measure (\<lambda>(e, h, r). nat r)") auto

declare zrlLoop.simps [simp del]

text \<open>
  The loop over the AC positions \<open>zig\<close> up to \<open>se\<close> inclusive, of \<open>writePartialBlock\<close>
  (\<open>for zig := ss; zig <= se; zig++\<close>) and, with \<open>se = blockSize - 1\<close>, of \<open>writeBlock\<close>
  (\<open>for zig := 1; zig < blockSize; zig++\<close>): the two loop bodies are the same text. It
  returns the encoder and the final \<open>runLength\<close>.
\<close>

function acLoop :: "extern \<Rightarrow> encoder \<Rightarrow> block \<Rightarrow> int \<Rightarrow> int \<Rightarrow> int \<Rightarrow> int \<Rightarrow> int
    \<Rightarrow> error + (encoder \<times> int)" where
  "acLoop x e b q h r zig se =
     (if zig \<le> se then
        (case coef x e b q zig of
           Inl p \<Rightarrow> Inl p
         | Inr ac \<Rightarrow>
             if ac = 0 then acLoop x e b q h (r + 1) (zig + 1) se
             else
               (case zrlLoop e h r of
                  Inl p \<Rightarrow> Inl p
                | Inr (e1, r1) \<Rightarrow>
                    (case emitHuffRLE e1 h (word_of_int r1) ac of
                       Inl p \<Rightarrow> Inl p
                     | Inr e2 \<Rightarrow> acLoop x e2 b q h 0 (zig + 1) se)))
      else Inr (e, r))"
  by pat_completeness auto
termination
  by (relation "measure (\<lambda>(x, e, b, q, h, r, zig, se). nat (se + 1 - zig))") auto

declare acLoop.simps [simp del]

text \<open>
  \<open>writeBlock\<close> writes a block of pixel data using the given quantization table,
  returning the post-quantized DC value of the DCT-transformed block. The transform
  works in place on the scratch block \<open>b\<close>, which every caller refills before the next
  call; the model returns the encoder and the DC value.
\<close>

definition writeBlock :: "extern \<Rightarrow> encoder \<Rightarrow> block \<Rightarrow> int \<Rightarrow> int32
    \<Rightarrow> error + (encoder \<times> int32)" where
  "writeBlock x e b0 q prevDC =
     (let b = fdct x b0 in
      bindE (coefDC e b q) (\<lambda>dc.
      bindE (emitHuffRLE e (2 * q + 0) 0 (dc - prevDC)) (\<lambda>e1.
      bindE (acLoop x e1 b q (2 * q + 1) 0 1 (int blockSize - 1)) (\<lambda>(e2, runLength).
        if 0 < runLength
        then bindE (emitHuff e2 (2 * q + 1) 0x00) (\<lambda>e3. Inr (e3, dc))
        else Inr (e2, dc)))))"

text \<open>
  \<open>writePartialBlock\<close> writes a block of pixel data for a progressive scan, processing
  only the range of DCT coefficients from \<open>ss\<close> to \<open>se\<close>.
\<close>

definition writePartialBlock :: "extern \<Rightarrow> encoder \<Rightarrow> block \<Rightarrow> int \<Rightarrow> int32 \<Rightarrow> int \<Rightarrow> int
    \<Rightarrow> error + (encoder \<times> int32)" where
  "writePartialBlock x e b0 q prevDC ss se =
     (let b = fdct x b0 in
      if ss = 0 \<and> se = 0 then
        bindE (coefDC e b q) (\<lambda>dc.
        bindE (emitHuffRLE e (2 * q + 0) 0 (dc - prevDC)) (\<lambda>e1.
          Inr (e1, dc)))
      else if 0 < ss then
        bindE (acLoop x e b q (2 * q + 1) 0 ss se) (\<lambda>(e2, runLength).
          if 0 < runLength
          then bindE (emitHuff e2 (2 * q + 1) 0x00) (\<lambda>e3. Inr (e3, 0))
          else Inr (e2, 0))
      else Inr (e, 0))"

section \<open>Images and the iteration over their blocks\<close>

text \<open>
  An \<open>image.Image\<close> is an object of the caller. The encoder looks at its dynamic type
  (\<open>*image.Gray\<close>, \<open>*image.RGBA\<close>, \<open>*image.YCbCr\<close> or anything else), at its bounds, and
  at its pixels through \<open>grayToY\<close>, \<open>rgbaToYCbCr\<close>, \<open>yCbCrToYCbCr\<close> and \<open>toYCbCr\<close>, which
  read the pixels with Go's \<open>image\<close> and \<open>image/color\<close> packages and fill natural-order
  blocks. The model of an image holds the type, the bounds and, as \<open>toBlocks px py\<close>, the
  blocks \<open>(yBlock, cbBlock, crBlock)\<close> that the routine for its type stores for the 8x8
  region with top-left corner \<open>(px, py)\<close> (for a gray image only the first is used).
\<close>

datatype imageKind = Gray | RGBA | YCbCr | Generic

record image =
  kind :: imageKind
  minX :: int
  minY :: int
  maxX :: int
  maxY :: int
  toBlocks :: "int \<Rightarrow> int \<Rightarrow> block \<times> block \<times> block"

definition Dx :: "image \<Rightarrow> int" where
  "Dx m = maxX m - minX m"

definition Dy :: "image \<Rightarrow> int" where
  "Dy m = maxY m - minY m"

text \<open>
  \<open>scale\<close> scales the 16x16 region represented by the 4 \<open>src\<close> blocks to the 8x8 \<open>dst\<close>
  block. The loops assign every one of the 64 entries of \<open>dst\<close>, so its previous content
  does not matter and the model starts from a zero block.
\<close>

definition scale :: "block list \<Rightarrow> block" where
  "scale src =
     fold (\<lambda>(i, y, xx) dst.
             (let dstOff = (push_bit 4 (i AND 2)) OR (push_bit 2 (i AND 1));
                  j = 16 * y + 2 * xx;
                  sum = src ! i ! j + src ! i ! (j + 1) + src ! i ! (j + 8) + src ! i ! (j + 9)
              in dst[8 * y + xx + dstOff := signed_drop_bit 2 (sum + 2)]))
       (concat (map (\<lambda>i. concat (map (\<lambda>y. map (\<lambda>xx. (i, y, xx)) [0..<4]) [0..<4])) [0..<4]))
       (replicate blockSize 0)"

text \<open>A loop over a list whose body can panic.\<close>

fun foldE :: "('a \<Rightarrow> 's \<Rightarrow> error + 's) \<Rightarrow> 'a list \<Rightarrow> 's \<Rightarrow> error + 's" where
  "foldE f [] s = Inr s"
| "foldE f (a # rest) s = (case f a s of Inl p \<Rightarrow> Inl p | Inr s' \<Rightarrow> foldE f rest s')"

text \<open>The values of \<open>v\<close> in \<open>for v := lo; v < hi; v += st\<close>.\<close>

definition steps :: "int \<Rightarrow> int \<Rightarrow> int \<Rightarrow> int list" where
  "steps lo hi st = map (\<lambda>k. lo + st * int k) [0..<nat ((hi - lo + st - 1) div st)]"

text \<open>
  \<open>blockProcessor\<close>: a function that processes a block; it receives the block, the
  quantization index and the previous DC value and returns the new DC value. The
  closures of the source capture the encoder, which the model passes and returns.
\<close>

type_synonym blockProcessor = "encoder \<Rightarrow> block \<Rightarrow> int \<Rightarrow> int32 \<Rightarrow> error + (encoder \<times> int32)"

text \<open>
  \<open>processImageBlocks\<close> iterates over the image blocks and calls the processor for each
  block. The state of its loops is the encoder with the local variables \<open>prevDCY\<close>,
  \<open>prevDCCb\<close> and \<open>prevDCCr\<close>; \<open>procY\<close>, \<open>procCb\<close> and \<open>procCr\<close> are the statements
  \<open>prevDCY = processor(&b, 0, prevDCY)\<close>, \<open>prevDCCb = processor(&b, 1, prevDCCb)\<close> and
  \<open>prevDCCr = processor(&b, 1, prevDCCr)\<close>.
\<close>

record scanState =
  enc :: encoder
  prevDCY :: int32
  prevDCCb :: int32
  prevDCCr :: int32

definition procY :: "blockProcessor \<Rightarrow> block \<Rightarrow> scanState \<Rightarrow> error + scanState" where
  "procY processor b st =
     bindE (processor (enc st) b 0 (prevDCY st)) (\<lambda>(e', d). Inr (st\<lparr>enc := e', prevDCY := d\<rparr>))"

definition procCb :: "blockProcessor \<Rightarrow> block \<Rightarrow> scanState \<Rightarrow> error + scanState" where
  "procCb processor b st =
     bindE (processor (enc st) b 1 (prevDCCb st)) (\<lambda>(e', d). Inr (st\<lparr>enc := e', prevDCCb := d\<rparr>))"

definition procCr :: "blockProcessor \<Rightarrow> block \<Rightarrow> scanState \<Rightarrow> error + scanState" where
  "procCr processor b st =
     bindE (processor (enc st) b 1 (prevDCCr st)) (\<lambda>(e', d). Inr (st\<lparr>enc := e', prevDCCr := d\<rparr>))"

text \<open>
  The body of the two loops over the 16x16 regions of a colour image: the four Y blocks
  of the region, then its Cb block, then its Cr block, each if the component is selected.
\<close>

definition processMCU :: "image \<Rightarrow> int \<Rightarrow> blockProcessor \<Rightarrow> int \<Rightarrow> int \<Rightarrow> scanState
    \<Rightarrow> error + scanState" where
  "processMCU m component processor y xx st =
     (let pt = (\<lambda>i. toBlocks m (xx + int (i AND 1) * 8) (y + int (i AND 2) * 4));
          cb = map (\<lambda>i. fst (snd (pt i))) [0..<4];
          cr = map (\<lambda>i. snd (snd (pt i))) [0..<4]
      in bindE (foldE (\<lambda>i s. if component = - 1 \<or> component = 0
                              then procY processor (fst (pt i)) s
                              else Inr s) [0..<4] st)
           (\<lambda>s1.
      bindE (if component = - 1 \<or> component = 1
             then procCb processor (scale cb) s1
             else Inr s1)
           (\<lambda>s2.
             if component = - 1 \<or> component = 2
             then procCr processor (scale cr) s2
             else Inr s2)))"

definition processImageBlocks :: "encoder \<Rightarrow> image \<Rightarrow> int \<Rightarrow> blockProcessor \<Rightarrow> error + encoder" where
  "processImageBlocks e m component processor =
     (let st0 = \<lparr>enc = e, prevDCY = 0, prevDCCb = 0, prevDCCr = 0\<rparr>;
          yOnly = (\<lambda>y xx. procY processor (fst (toBlocks m xx y)))
      in bindE
           (case kind m of
              Gray \<Rightarrow>
                foldE (\<lambda>y. foldE (yOnly y) (steps (minX m) (maxX m) 8))
                  (steps (minY m) (maxY m) 8) st0
            | _ \<Rightarrow>
                if component \<noteq> 0 then
                  foldE (\<lambda>y. foldE (processMCU m component processor y)
                                 (steps (minX m) (maxX m) 16))
                    (steps (minY m) (maxY m) 16) st0
                else
                  foldE (\<lambda>y. foldE (yOnly y) (steps (minX m) (maxX m) 8))
                    (steps (minY m) (maxY m) 8) st0)
           (\<lambda>s. Inr (enc s)))"

section \<open>The baseline scan\<close>

definition sosHeaderY :: "byte list" where
  "sosHeaderY = [0xff, 0xda, 0x00, 0x08, 0x01, 0x01, 0x00, 0x00, 0x3f, 0x00]"

definition sosHeaderYCbCr :: "byte list" where
  "sosHeaderYCbCr = [0xff, 0xda, 0x00, 0x0c, 0x03, 0x01, 0x00, 0x02,
                     0x11, 0x03, 0x11, 0x00, 0x3f, 0x00]"

text \<open>\<open>writeSOS\<close> writes the StartOfScan marker and the baseline image data.\<close>

definition writeSOS :: "extern \<Rightarrow> encoder \<Rightarrow> image \<Rightarrow> error + encoder" where
  "writeSOS x e m =
     (let e1 = writeBytes e (case kind m of Gray \<Rightarrow> sosHeaderY | _ \<Rightarrow> sosHeaderYCbCr)
      in bindE (processImageBlocks e1 m (- 1) (writeBlock x)) (\<lambda>e2.
           Inr (emit e2 0x7f 7)))"

section \<open>Scan scripts\<close>

definition DefaultQuality :: int where
  "DefaultQuality = 75"

text \<open>\<open>ProgressiveScan\<close> represents a single scan in a progressive JPEG sequence.\<close>

record ProgressiveScan =
  Component :: int
  SpectralStart :: int
  SpectralEnd :: int
  SuccessiveApproxHigh :: int
  SuccessiveApproxLow :: int

type_synonym ScanScript = "ProgressiveScan list"

text \<open>
  \<open>Options\<close> are the encoding parameters. \<open>ScanScript\<close> is a slice: \<open>None\<close> is the \<open>nil\<close>
  slice, \<open>Some []\<close> an empty slice that is not \<open>nil\<close>.
\<close>

record Options =
  Quality :: int
  Progressive :: bool
  ScanScript :: "ScanScript option"

definition mkScan :: "int \<Rightarrow> int \<Rightarrow> int \<Rightarrow> ProgressiveScan" where
  "mkScan c ss se = \<lparr>Component = c, SpectralStart = ss, SpectralEnd = se,
                     SuccessiveApproxHigh = 0, SuccessiveApproxLow = 0\<rparr>"

definition DefaultGrayscaleScanScript :: ScanScript where
  "DefaultGrayscaleScanScript = [mkScan 0 0 0, mkScan 0 1 9, mkScan 0 10 63]"

definition DefaultColorScanScript :: ScanScript where
  "DefaultColorScanScript =
     [mkScan (- 1) 0 0, mkScan 0 1 2, mkScan 0 3 9, mkScan 1 1 5, mkScan 2 1 5,
      mkScan 0 10 63, mkScan 1 6 63, mkScan 2 6 63]"

text \<open>
  The body of the loop of \<open>validateScanScript\<close> for scan number \<open>i\<close>: the first check
  that fails gives the error; \<open>None\<close> when every check passes.
\<close>

definition checkScan :: "nat \<Rightarrow> ProgressiveScan \<Rightarrow> int \<Rightarrow> error option" where
  "checkScan i scan nComponent =
     (if Component scan < - 1 \<or> Component scan \<ge> nComponent
        then Some (ScanError i ''invalid component'')
      else if SpectralStart scan < 0 \<or> SpectralStart scan > 63
        then Some (ScanError i ''invalid spectral start'')
      else if SpectralEnd scan < SpectralStart scan \<or> SpectralEnd scan > 63
        then Some (ScanError i ''invalid spectral end'')
      else if SuccessiveApproxHigh scan < 0 \<or> SuccessiveApproxHigh scan > 13
        then Some (ScanError i ''invalid successive approximation high'')
      else if SuccessiveApproxLow scan < 0 \<or> SuccessiveApproxLow scan > 13
        then Some (ScanError i ''invalid successive approximation low'')
      else if SuccessiveApproxLow scan > SuccessiveApproxHigh scan
        then Some (ScanError i ''successive approximation low > high'')
      else if SpectralStart scan = 0 \<and> SpectralEnd scan = 0
        then (if Component scan \<noteq> - 1 \<and> Component scan \<ge> nComponent
              then Some (ScanError i ''DC scan has invalid component'')
              else None)
      else (if Component scan = - 1
            then Some (ScanError i ''AC scan cannot have component -1'')
            else None))"

fun validateScans :: "nat \<Rightarrow> ScanScript \<Rightarrow> int \<Rightarrow> error option" where
  "validateScans i [] nComponent = None"
| "validateScans i (scan # rest) nComponent =
     (case checkScan i scan nComponent of
        Some p \<Rightarrow> Some p
      | None \<Rightarrow> validateScans (Suc i) rest nComponent)"

text \<open>\<open>validateScanScript\<close> checks if a scan script is valid for JPEG encoding.\<close>

definition validateScanScript :: "ScanScript \<Rightarrow> int \<Rightarrow> error option" where
  "validateScanScript script nComponent =
     (if length script = 0 then Some (EncodeError ''jpeg: scan script cannot be empty'')
      else validateScans 0 script nComponent)"

section \<open>Progressive scans\<close>

text \<open>
  The end of \<open>writeProgressiveSOS\<close>: pad the last byte with 1's, flush any remaining
  bits, and reset the bit buffer for the next scan.
\<close>

definition finishScan :: "encoder \<Rightarrow> encoder" where
  "finishScan e =
     (let e1 = emit e 0x7f 7;
          e2 = (if 0 < nBits e1
                then (let bitsNeeded = 8 - nBits e1
                      in emit e1 (push_bit (unat bitsNeeded) 1 - 1) bitsNeeded)
                else e1)
      in e2\<lparr>bits := 0, nBits := 0\<rparr>)"

text \<open>
  \<open>writeProgressiveSOS\<close> writes a Start Of Scan marker for a progressive scan and
  processes the image blocks for that scan.
\<close>

definition writeProgressiveSOS :: "extern \<Rightarrow> encoder \<Rightarrow> image \<Rightarrow> int \<Rightarrow> int \<Rightarrow> int \<Rightarrow> int \<Rightarrow> int
    \<Rightarrow> error + encoder" where
  "writeProgressiveSOS x e m zigStart zigEnd ah al component =
     (let e1 = (if component \<noteq> - 1
                then writeBytes e [0xff, 0xda, 0x00, 0x08, 0x01, word_of_int (component + 1),
                                   (if component = 1 \<or> component = 2 then 0x11 else 0x00)]
                else writeBytes e [0xff, 0xda, 0x00, 0x0c, 0x03, 0x01, 0x00, 0x02,
                                   0x11, 0x03, 0x11]);
          refinement = push_bit 4 (word_of_int ah :: byte) OR (word_of_int al AND 0x0F);
          e2 = writeBytes e1 [word_of_int zigStart, word_of_int zigEnd, refinement];
          processor = (\<lambda>e' b q prevDC. writePartialBlock x e' b q prevDC zigStart zigEnd)
      in bindE (processImageBlocks e2 m component processor) (\<lambda>e3.
           Inr (finishScan e3)))"

text \<open>
  The script that \<open>writeProgressive\<close> executes: the script of the options if there is one
  (the default for the number of components otherwise), replaced by the default if
  \<open>validateScanScript\<close> returns an error for it.
\<close>

definition chooseScript :: "int \<Rightarrow> Options option \<Rightarrow> ScanScript" where
  "chooseScript nComponent o' =
     (let script0 = (case o' of
                       Some opts \<Rightarrow>
                         (case ScanScript opts of
                            Some sc \<Rightarrow> sc
                          | None \<Rightarrow> if nComponent = 3 then DefaultColorScanScript
                                    else DefaultGrayscaleScanScript)
                     | None \<Rightarrow> if nComponent = 3 then DefaultColorScanScript
                               else DefaultGrayscaleScanScript)
      in if validateScanScript script0 nComponent \<noteq> None
         then (if nComponent = 3 then DefaultColorScanScript else DefaultGrayscaleScanScript)
         else script0)"

text \<open>\<open>writeProgressive\<close> encodes the image using progressive JPEG format.\<close>

definition writeProgressive :: "extern \<Rightarrow> encoder \<Rightarrow> image \<Rightarrow> int \<Rightarrow> Options option
    \<Rightarrow> error + encoder" where
  "writeProgressive x e m nComponent o' =
     bindE (writeSOF e (Dx m) (Dy m) nComponent (sof2Marker x)) (\<lambda>e1.
       foldE (\<lambda>scan e'.
                writeProgressiveSOS x e' m (SpectralStart scan) (SpectralEnd scan)
                  (SuccessiveApproxHigh scan) (SuccessiveApproxLow scan) (Component scan))
         (chooseScript nComponent o') (writeDHT x e1 nComponent))"

section \<open>Encode\<close>

text \<open>The clipping of the quality to [1, 100], and the default for a nil \<open>*Options\<close>.\<close>

definition clipQuality :: "Options option \<Rightarrow> int" where
  "clipQuality o' =
     (case o' of
        None \<Rightarrow> DefaultQuality
      | Some opts \<Rightarrow>
          if Quality opts < 1 then 1
          else if Quality opts > 100 then 100
          else Quality opts)"

text \<open>The conversion from a quality rating to a scaling factor (Go's \<open>/\<close> truncates).\<close>

definition scaleFactor :: "int \<Rightarrow> int" where
  "scaleFactor quality = (if quality < 50 then 5000 sdiv quality else 200 - quality * 2)"

text \<open>The initialization of the quantization tables.\<close>

definition initQuant :: "int \<Rightarrow> byte list list" where
  "initQuant sc =
     map (map (\<lambda>u. (let x0 = uint u;
                         x1 = (x0 * sc + 50) sdiv 100;
                         x2 = (if x1 < 1 then 1 else if x1 > 255 then 255 else x1)
                     in (word_of_int x2 :: byte))))
       unscaledQuant"

text \<open>The number of components, from the type of the input image.\<close>

definition nComponentOf :: "image \<Rightarrow> int" where
  "nComponentOf m = (case kind m of Gray \<Rightarrow> 1 | _ \<Rightarrow> 3)"

text \<open>
  \<open>Encode\<close> writes the image \<open>m\<close> to the sink \<open>wr\<close> with the given options. The result is
  the returned error and the sink after the call; \<open>Inl\<close> is a panic.
\<close>

definition Encode :: "extern \<Rightarrow> writer \<Rightarrow> image \<Rightarrow> Options option
    \<Rightarrow> error + (error option \<times> writer)" where
  "Encode x wr m o' =
     (if Dx m \<ge> push_bit 16 1 \<or> Dy m \<ge> push_bit 16 1
      then Inr (Some (EncodeError ''jpeg: image is too large to encode''), wr)
      else
        (let e0 = \<lparr>w = wr, err = None, bits = 0, nBits = 0,
                   quant = initQuant (scaleFactor (clipQuality o'))\<rparr>;
             nComponent = nComponentOf m;
             e1 = writeBytes e0 [0xff, 0xd8];
             e2 = writeDQT x e1
         in bindE (if (case o' of None \<Rightarrow> False | Some opts \<Rightarrow> Progressive opts)
                   then writeProgressive x e2 m nComponent o'
                   else bindE (writeSOF e2 (Dx m) (Dy m) nComponent (sof0Marker x)) (\<lambda>e3.
                          writeSOS x (writeDHT x e3 nComponent) m))
              (\<lambda>e4. (let e5 = flush (writeBytes e4 [0xff, 0xd9])
                      in Inr (err e5, w e5)))))"

section \<open>The decoder: start of scan\<close>

text \<open>
  The bit reader of the decoder (\<open>readFull\<close>, \<open>decodeHuffman\<close>, \<open>receiveExtend\<close>,
  \<open>decodeBits\<close>) and the constant \<open>maxTh\<close> are declared in files of the package other
  than the one that holds \<open>processSOS\<close>. They are parameters of the model: \<open>'r\<close> is the
  state of the input (the bytes not yet read and the bit register \<open>d.bits\<close>), and each
  operation returns an error or its result with the new state. \<open>decodeHuffman\<close> takes the
  table as its class (0 for \<open>dcTable\<close>, 1 for \<open>acTable\<close>) and its selector.
\<close>

record 'r decIO =
  readFull :: "nat \<Rightarrow> 'r \<Rightarrow> error + (byte list \<times> 'r)"
  decodeHuffman :: "nat \<Rightarrow> byte \<Rightarrow> 'r \<Rightarrow> error + (byte \<times> 'r)"
  receiveExtend :: "byte \<Rightarrow> 'r \<Rightarrow> error + (int32 \<times> 'r)"
  decodeBits :: "int32 \<Rightarrow> 'r \<Rightarrow> error + (uint32 \<times> 'r)"
  maxTh :: byte

definition dcTable :: nat where "dcTable = 0"
definition acTable :: nat where "acTable = 1"

text \<open>
  A component of the frame (\<open>d.comp[i]\<close>: sampling factors \<open>h\<close> and \<open>v\<close>, identifier \<open>c\<close>,
  quantization table selector \<open>tq\<close>) and the fields of the decoder that the header of a
  scan reads. The field names carry a prefix, since \<open>h\<close>, \<open>v\<close> and \<open>c\<close> are variables of
  other definitions.
\<close>

record component =
  comp_h :: int
  comp_v :: int
  comp_c :: byte
  comp_tq :: byte

record decoder =
  d_nComp :: int
  d_comp :: "component list"
  d_progressive :: bool
  d_baseline :: bool

text \<open>An entry of the local array \<open>scan\<close> of \<open>processSOS\<close>.\<close>

record scanComp =
  compIndex :: byte
  td :: byte
  ta :: byte

text \<open>What the header of a scan determines for the decoding of its blocks.\<close>

record sosParams =
  scan :: "scanComp list"
  zigStart :: int
  zigEnd :: int
  ah :: uint32
  al :: uint32

text \<open>
  The search for the component selector \<open>cs\<close>: the loop over \<open>d.comp[:d.nComp]\<close> does
  not stop at a match, so the last match wins; \<open>-1\<close> when there is none.
\<close>

definition findComp :: "decoder \<Rightarrow> byte \<Rightarrow> int" where
  "findComp d cs =
     fold (\<lambda>(j, cm) r. if cs = comp_c cm then int j else r)
       (zip [0..<nat (d_nComp d)] (take (nat (d_nComp d)) (d_comp d))) (- 1)"

text \<open>The body of the loop over the components of the scan, on \<open>(scan, totalHV)\<close>.\<close>

definition sosComponent :: "'r decIO \<Rightarrow> decoder \<Rightarrow> byte list \<Rightarrow> nat \<Rightarrow> scanComp list \<times> int
    \<Rightarrow> error + (scanComp list \<times> int)" where
  "sosComponent io d tmp i st =
     (case st of (sc, totalHV) \<Rightarrow>
        (let cs = tmp ! (1 + 2 * i);
             ci = findComp d cs
         in if ci < 0 then Inl (FormatError ''unknown component selector'')
            else if list_ex (\<lambda>j. compIndex (sc ! j) = word_of_int ci) [0..<i]
              then Inl (FormatError ''repeated component selector'')
            else
              (let totalHV' = totalHV + comp_h (d_comp d ! nat ci) * comp_v (d_comp d ! nat ci);
                   t1 = drop_bit 4 (tmp ! (2 + 2 * i));
                   t2 = (tmp ! (2 + 2 * i)) AND 0x0f
               in if t1 > maxTh io \<or> (d_baseline d \<and> t1 > 1)
                    then Inl (FormatError ''bad Td value'')
                  else if t2 > maxTh io \<or> (d_baseline d \<and> t2 > 1)
                    then Inl (FormatError ''bad Ta value'')
                  else Inr (sc @ [\<lparr>compIndex = word_of_int ci, td = t1, ta = t2\<rparr>],
                            totalHV'))))"

text \<open>
  The checks of \<open>processSOS\<close> on the spectral selection bounds and the successive
  approximation values of a progressive scan, in their order; for a sequential scan the
  parameters are 0, 63, 0, 0.
\<close>

definition sosProgression :: "decoder \<Rightarrow> byte list \<Rightarrow> int \<Rightarrow> error + (int \<times> int \<times> uint32 \<times> uint32)" where
  "sosProgression d tmp nComp =
     (if d_progressive d then
        (let zs = uint (tmp ! nat (1 + 2 * nComp));
             ze = uint (tmp ! nat (2 + 2 * nComp));
             a1 = (ucast (drop_bit 4 (tmp ! nat (3 + 2 * nComp))) :: uint32);
             a0 = (ucast ((tmp ! nat (3 + 2 * nComp)) AND 0x0f) :: uint32)
         in if (zs = 0 \<and> ze \<noteq> 0) \<or> zs > ze \<or> int blockSize \<le> ze
              then Inl (FormatError ''bad spectral selection bounds'')
            else if zs \<noteq> 0 \<and> nComp \<noteq> 1
              then Inl (FormatError ''progressive AC coefficients for more than one component'')
            else if a1 \<noteq> 0 \<and> a1 \<noteq> a0 + 1
              then Inl (FormatError ''bad successive approximation values'')
            else Inr (zs, ze, a1, a0))
      else Inr (0, int blockSize - 1, 0, 0))"

text \<open>
  The header part of \<open>processSOS\<close>, up to the start of the allocation and of the loop over
  the MCUs: \<open>n\<close> is the length of the segment, \<open>rd\<close> the input.
\<close>

definition sosHeader :: "'r decIO \<Rightarrow> decoder \<Rightarrow> int \<Rightarrow> 'r \<Rightarrow> error + (sosParams \<times> 'r)" where
  "sosHeader io d n rd =
     (if d_nComp d = 0 then Inl (FormatError ''missing SOF marker'')
      else if n < 6 \<or> 4 + 2 * d_nComp d < n \<or> n smod 2 \<noteq> 0
        then Inl (FormatError ''SOS has wrong length'')
      else
        bindE (readFull io (nat n) rd) (\<lambda>(tmp, rd').
          (let nComp = uint (tmp ! 0)
           in if n \<noteq> 4 + 2 * nComp
                then Inl (FormatError ''SOS length inconsistent with number of components'')
              else
                bindE (foldE (sosComponent io d tmp) [0..<nat nComp] ([], 0)) (\<lambda>(sc, totalHV).
                  if d_nComp d > 1 \<and> totalHV > 10
                    then Inl (FormatError ''total sampling factors too large'')
                  else
                    bindE (sosProgression d tmp nComp) (\<lambda>(zs, ze, a1, a0).
                      Inr (\<lparr>scan = sc, zigStart = zs, zigEnd = ze, ah = a1, al = a0\<rparr>, rd'))))))"

section \<open>The decoder: the blocks of a first scan\<close>

text \<open>
  The state that the decoding of a block changes: the input \<open>rd\<close>, the end-of-block run
  \<open>d.eobRun\<close>, the DC predictors \<open>dc\<close> (a \<open>[maxComponents]int32\<close>) and the block \<open>b\<close>.
\<close>

record 'r blockState =
  rd :: 'r
  eobRun :: uint16
  dc :: "int32 list"
  blk :: block

text \<open>
  The loop that decodes the AC coefficients of a block (section F.2.2.2), from the
  \<open>int32\<close> position \<open>zig\<close>, which stays below 80 and is modelled as \<open>int\<close>. \<open>break\<close> and the
  end of the loop both return the state.
\<close>

function decodeAC :: "extern \<Rightarrow> 'r decIO \<Rightarrow> byte \<Rightarrow> uint32 \<Rightarrow> int \<Rightarrow> int \<Rightarrow> 'r blockState
    \<Rightarrow> error + 'r blockState" where
  "decodeAC x io t a0 zig ze st =
     (if zig \<le> ze then
        (case decodeHuffman io acTable t (rd st) of
           Inl p \<Rightarrow> Inl p
         | Inr (v0, r1) \<Rightarrow>
             (let val0 = drop_bit 4 v0; val1 = v0 AND 0x0f
              in if val1 \<noteq> 0 then
                   (let zig' = zig + uint val0
                    in if zig' > ze then Inr (st\<lparr>rd := r1\<rparr>)
                       else
                         (case receiveExtend io val1 r1 of
                            Inl p \<Rightarrow> Inl p
                          | Inr (ac, r2) \<Rightarrow>
                              (case idx (unzig x) zig' of
                                 Inl p \<Rightarrow> Inl p
                               | Inr u \<Rightarrow>
                                   if 0 \<le> u \<and> u < int (length (blk st))
                                   then decodeAC x io t a0 (zig' + 1) ze
                                          (st\<lparr>rd := r2,
                                              blk := (blk st)[nat u := push_bit (unat a0) ac]\<rparr>)
                                   else Inl (Panic ''index out of range''))))
                 else if val0 \<noteq> 0x0f then
                   (let run = (push_bit (unat val0) 1 :: uint16)
                    in if val0 \<noteq> 0 then
                         (case decodeBits io (ucast val0) r1 of
                            Inl p \<Rightarrow> Inl p
                          | Inr (bs, r2) \<Rightarrow>
                              Inr (st\<lparr>rd := r2, eobRun := (run OR ucast bs) - 1\<rparr>))
                       else Inr (st\<lparr>rd := r1, eobRun := run - 1\<rparr>))
                 else decodeAC x io t a0 (zig + 0x0f + 1) ze (st\<lparr>rd := r1\<rparr>)))
      else Inr st)"
  by pat_completeness auto
termination
  apply (relation "measure (\<lambda>(x, io, t, a0, zig, ze, st). nat (ze + 1 - zig))")
    apply auto
  subgoal for x io t zig ze st v0 r1 ac r2 u
    using uint_ge_0 [of "drop_bit 4 v0"] by linarith
  done

declare decodeAC.simps [simp del]

text \<open>
  The decoding of one block of a first scan: the branch \<open>ah = 0\<close> of the body of the loop
  over the blocks in \<open>processSOS\<close>, for the component \<open>ci\<close> of the scan with the table
  selectors \<open>t1\<close> (DC) and \<open>t2\<close> (AC). \<open>blk st\<close> is the block \<open>b\<close> as loaded, \<open>zs\<close>, \<open>ze\<close> and
  \<open>a0\<close> are \<open>zigStart\<close>, \<open>zigEnd\<close> and \<open>al\<close>.
\<close>

definition decodeFirstScan :: "extern \<Rightarrow> 'r decIO \<Rightarrow> nat \<Rightarrow> byte \<Rightarrow> byte \<Rightarrow> int \<Rightarrow> int \<Rightarrow> uint32
    \<Rightarrow> 'r blockState \<Rightarrow> error + 'r blockState" where
  "decodeFirstScan x io ci t1 t2 zs ze a0 st =
     bindE
       (if zs = 0 then
          bindE (decodeHuffman io dcTable t1 (rd st)) (\<lambda>(v0, r1).
            if v0 > 16 then Inl (UnsupportedError ''excessive DC component'')
            else
              bindE (receiveExtend io v0 r1) (\<lambda>(dcDelta, r2).
                (let dc' = (dc st)[ci := dc st ! ci + dcDelta]
                 in Inr (zs + 1, st\<lparr>rd := r2, dc := dc',
                                     blk := (blk st)[0 := push_bit (unat a0) (dc' ! ci)]\<rparr>))))
        else Inr (zs, st))
       (\<lambda>(zig, st1).
          if zig \<le> ze \<and> eobRun st1 > 0 then Inr (st1\<lparr>eobRun := eobRun st1 - 1\<rparr>)
          else decodeAC x io t2 a0 zig ze st1)"

section \<open>Notions used to state the properties\<close>

text \<open>\<open>clamp lo hi v\<close> is \<open>v\<close> brought into the interval from \<open>lo\<close> to \<open>hi\<close>.\<close>

definition clamp :: "int \<Rightarrow> int \<Rightarrow> int \<Rightarrow> int" where
  "clamp lo hi v = (if v < lo then lo else if v > hi then hi else v)"

text \<open>
  A byte sequence is \<open>stuffed\<close> when every byte \<open>0xFF\<close> in it is immediately followed by
  a byte \<open>0x00\<close>.
\<close>

fun stuffed :: "byte list \<Rightarrow> bool" where
  "stuffed [] = True"
| "stuffed [b] = (b \<noteq> 0xff)"
| "stuffed (b # b' # bs) = (if b = 0xff then b' = 0x00 \<and> stuffed bs else stuffed (b' # bs))"

text \<open>The bytes that the sink has accepted between the encoder states \<open>e\<close> and \<open>e'\<close>.\<close>

definition emitted :: "encoder \<Rightarrow> encoder \<Rightarrow> byte list" where
  "emitted e e' = drop (length (accepted (w e))) (accepted (w e'))"

text \<open>A sequence of calls of \<open>emit\<close>, each with its value and its number of bits.\<close>

fun emitAll :: "encoder \<Rightarrow> (uint32 \<times> uint32) list \<Rightarrow> encoder" where
  "emitAll e [] = e"
| "emitAll e ((v, n) # cs) = emitAll (emit e v n) cs"

text \<open>
  \<open>appends e e' bs\<close>: from \<open>e\<close> to \<open>e'\<close> the sink has accepted the bytes \<open>bs\<close> and nothing
  else of the sink or of the quantization tables has changed; after an error nothing is
  written, and the only new error is a write error. \<open>grows e e'\<close>: this holds for some
  bytes. \<open>stuffs e e' bs\<close>: moreover \<open>bs\<close> is stuffed, up to a last \<open>0xFF\<close> whose \<open>0x00\<close>
  the sink refused.
\<close>

definition appends :: "encoder \<Rightarrow> encoder \<Rightarrow> byte list \<Rightarrow> bool" where
  "appends e e' bs \<longleftrightarrow>
     accepted (w e') = accepted (w e) @ bs \<and> accepts (w e') = accepts (w e) \<and>
     flushes (w e') = flushes (w e) \<and> quant e' = quant e \<and>
     (err e \<noteq> None \<longrightarrow> bs = [] \<and> err e' = err e) \<and>
     (err e' = None \<or> err e' = Some WriteError \<or> err e' = err e)"

definition grows :: "encoder \<Rightarrow> encoder \<Rightarrow> bool" where
  "grows e e' \<longleftrightarrow> (\<exists>bs. appends e e' bs)"

text \<open>A block processor under which the output only grows.\<close>

definition growing :: "blockProcessor \<Rightarrow> bool" where
  "growing processor \<longleftrightarrow>
     (\<forall>e b q d e' d'. processor e b q d = Inr (e', d') \<longrightarrow> grows e e')"

definition stuffs :: "encoder \<Rightarrow> encoder \<Rightarrow> byte list \<Rightarrow> bool" where
  "stuffs e e' bs \<longleftrightarrow>
     appends e e' bs \<and> stuffed (bs @ [0x00]) \<and> (err e' = None \<longrightarrow> stuffed bs)"

text \<open>
  \<open>stuff bs\<close> is \<open>bs\<close> with a \<open>0x00\<close> inserted after every \<open>0xFF\<close>; \<open>topBytes acc k\<close> are
  the \<open>k\<close> bytes taken one after the other from the top of the 32-bit accumulator \<open>acc\<close>.
\<close>

fun stuff :: "byte list \<Rightarrow> byte list" where
  "stuff [] = []"
| "stuff (b # bs) = (if b = 0xff then [0xff, 0x00] else [b]) @ stuff bs"

definition topBytes :: "uint32 \<Rightarrow> nat \<Rightarrow> byte list" where
  "topBytes acc k = map (\<lambda>i. ucast (drop_bit 24 (push_bit (8 * i) acc))) [0..<k]"

text \<open>
  Concrete values for the evaluation of the model: a sink that accepts every byte, and
  the encoder at the start of \<open>Encode\<close> with the tables for the default quality.
\<close>

definition okWriter :: writer where
  "okWriter = \<lparr>accepted = [], accepts = (\<lambda>bs b. True), flushes = (\<lambda>bs. True)\<rparr>"

text \<open>A sink that accepts every byte but \<open>0x00\<close>, and the encoder at its start on it.\<close>

definition nzWriter :: writer where
  "nzWriter = \<lparr>accepted = [], accepts = (\<lambda>bs b. b \<noteq> 0x00), flushes = (\<lambda>bs. True)\<rparr>"

definition encNZ :: encoder where
  "encNZ = \<lparr>w = nzWriter, err = None, bits = 0, nBits = 0,
            quant = initQuant (scaleFactor (clipQuality None))\<rparr>"

definition enc0 :: encoder where
  "enc0 = \<lparr>w = okWriter, err = None, bits = 0, nBits = 0,
           quant = initQuant (scaleFactor (clipQuality None))\<rparr>"

text \<open>
  The declarations that the encoder takes as a parameter, for the evaluation of the
  model: the zig-zag table and the marker codes of the JPEG standard, and the identity
  in the place of the transform, so that the block given to a block writer is taken as
  the transformed block.
\<close>

definition idExtern :: extern where
  "idExtern = \<lparr>fdct = (\<lambda>b. b),
     unzig = [0, 1, 8, 16, 9, 2, 3, 10,
              17, 24, 32, 25, 18, 11, 4, 5,
              12, 19, 26, 33, 40, 48, 41, 34,
              27, 20, 13, 6, 7, 14, 21, 28,
              35, 42, 49, 56, 57, 50, 43, 36,
              29, 22, 15, 23, 30, 37, 44, 51,
              58, 59, 52, 45, 38, 31, 39, 46,
              53, 60, 61, 54, 47, 55, 62, 63],
     sof0Marker = 0xc0, sof2Marker = 0xc2, dhtMarker = 0xc4, dqtMarker = 0xdb\<rparr>"

text \<open>
  Images for the evaluation: a gray image of the given width and height whose 8x8
  regions all give the block \<open>b\<close>.
\<close>

definition grayImage :: "int \<Rightarrow> int \<Rightarrow> block \<Rightarrow> image" where
  "grayImage wd ht b =
     \<lparr>kind = Gray, minX = 0, minY = 0, maxX = wd, maxY = ht, toBlocks = (\<lambda>px py. (b, b, b))\<rparr>"

text \<open>
  The validity of a scan script in the words of its specification: the script is not
  empty, and every descriptor has its component from -1 to \<open>nComponent - 1\<close>, its spectral
  bounds with \<open>0 \<le> start \<le> end \<le> 63\<close>, its successive approximation values with
  \<open>0 \<le> low \<le> high \<le> 13\<close>, and the component -1 (all components) only when
  \<open>start = end = 0\<close>.
\<close>

definition scanValid :: "ProgressiveScan \<Rightarrow> int \<Rightarrow> bool" where
  "scanValid s nComponent \<longleftrightarrow>
     - 1 \<le> Component s \<and> Component s < nComponent \<and>
     0 \<le> SpectralStart s \<and> SpectralStart s \<le> SpectralEnd s \<and> SpectralEnd s \<le> 63 \<and>
     0 \<le> SuccessiveApproxLow s \<and> SuccessiveApproxLow s \<le> SuccessiveApproxHigh s \<and>
     SuccessiveApproxHigh s \<le> 13 \<and>
     (Component s = - 1 \<longrightarrow> SpectralStart s = 0 \<and> SpectralEnd s = 0)"

definition scriptValid :: "ScanScript \<Rightarrow> int \<Rightarrow> bool" where
  "scriptValid sc nComponent \<longleftrightarrow> sc \<noteq> [] \<and> (\<forall>s \<in> set sc. scanValid s nComponent)"

text \<open>
  The end of a scan in the words of its specification: pad with \<open>emit(0x7f, 7)\<close>, then,
  if bits remain buffered, pad them to a full byte with as many 1-bits as are missing.
\<close>

definition padToByte :: "encoder \<Rightarrow> encoder" where
  "padToByte e =
     (let e1 = emit e 0x7f 7
      in if nBits e1 = 0 then e1
         else emit e1 (push_bit (unat (8 - nBits e1)) 1 - 1) (8 - nBits e1))"




text \<open>
  A stand-in for the bit reader of the decoder, for the evaluation of the model: an input
  that holds the bytes that \<open>readFull\<close> returns and, already decoded, the results that
  \<open>decodeHuffman\<close>, \<open>receiveExtend\<close> and \<open>decodeBits\<close> return, each in its order; an
  operation on an exhausted input returns an error.
\<close>

record replay =
  rbytes :: "byte list"
  rsyms :: "byte list"
  rexts :: "int32 list"
  rraw :: "uint32 list"

definition replayIO :: "replay decIO" where
  "replayIO =
     \<lparr>readFull = (\<lambda>k r. if k \<le> length (rbytes r)
                          then Inr (take k (rbytes r), r\<lparr>rbytes := drop k (rbytes r)\<rparr>)
                          else Inl UnexpectedEOF),
      decodeHuffman = (\<lambda>cls sel r. case rsyms r of
                          [] \<Rightarrow> Inl (FormatError ''short Huffman data'')
                        | s # rest \<Rightarrow> Inr (s, r\<lparr>rsyms := rest\<rparr>)),
      receiveExtend = (\<lambda>t r. case rexts r of
                          [] \<Rightarrow> Inl (FormatError ''short Huffman data'')
                        | s # rest \<Rightarrow> Inr (s, r\<lparr>rexts := rest\<rparr>)),
      decodeBits = (\<lambda>k r. case rraw r of
                          [] \<Rightarrow> Inl (FormatError ''short Huffman data'')
                        | s # rest \<Rightarrow> Inr (s, r\<lparr>rraw := rest\<rparr>)),
      maxTh = 3\<rparr>"

text \<open>A progressive frame of one component, and one of three components (4:2:0).\<close>

definition grayFrame :: decoder where
  "grayFrame = \<lparr>d_nComp = 1,
                 d_comp = [\<lparr>comp_h = 1, comp_v = 1, comp_c = 1, comp_tq = 0\<rparr>],
                 d_progressive = True, d_baseline = False\<rparr>"

definition colorFrame :: decoder where
  "colorFrame = \<lparr>d_nComp = 3,
                  d_comp = [\<lparr>comp_h = 2, comp_v = 2, comp_c = 1, comp_tq = 0\<rparr>,
                            \<lparr>comp_h = 1, comp_v = 1, comp_c = 2, comp_tq = 1\<rparr>,
                            \<lparr>comp_h = 1, comp_v = 1, comp_c = 3, comp_tq = 1\<rparr>],
                  d_progressive = True, d_baseline = False\<rparr>"

section \<open>The error monad\<close>

lemma bindE_Inl [simp]: "bindE (Inl p) f = Inl p"
  by (simp add: bindE_def)

lemma bindE_Inr [simp]: "bindE (Inr a) f = f a"
  by (simp add: bindE_def)

lemma bindE_eq_Inr: "bindE m f = Inr r \<longleftrightarrow> (\<exists>a. m = Inr a \<and> f a = Inr r)"
  by (cases m) simp_all

section \<open>The quantization tables\<close>

lemma sdiv_nonneg: "0 \<le> k \<Longrightarrow> 0 < l \<Longrightarrow> k sdiv l = k div (l::int)"
  by (simp add: signed_divide_int_def sgn_if)

lemma clipQuality_range: "1 \<le> clipQuality o' \<and> clipQuality o' \<le> 100"
  by (simp add: clipQuality_def DefaultQuality_def split: option.splits)

lemma scaleFactor_eq:
  "1 \<le> q \<Longrightarrow> scaleFactor q = (if q < 50 then 5000 div q else 200 - 2 * q)"
  by (simp add: scaleFactor_def sdiv_nonneg)

lemma scaleFactor_nonneg: "1 \<le> q \<Longrightarrow> q \<le> 100 \<Longrightarrow> 0 \<le> scaleFactor q"
  by (simp add: scaleFactor_eq pos_imp_zdiv_nonneg_iff)

lemma length_unscaledQuant: "length unscaledQuant = 2"
  by (simp add: unscaledQuant_def)

lemma length_unscaledQuant_nth: "i < 2 \<Longrightarrow> length (unscaledQuant ! i) = 64"
  by (auto simp: unscaledQuant_def less_Suc_eq numeral_2_eq_2)

lemma initQuant_nth:
  assumes "0 \<le> sc" "i < 2" "j < 64"
  shows "uint (initQuant sc ! i ! j) = clamp 1 255 ((uint (unscaledQuant ! i ! j) * sc + 50) div 100)"
proof -
  let ?u = "unscaledQuant ! i ! j"
  let ?x1 = "(uint ?u * sc + 50) div 100"
  have nn: "0 \<le> uint ?u * sc + 50" using assms(1) by simp
  have sd: "(uint ?u * sc + 50) sdiv 100 = ?x1" using nn by (simp add: sdiv_nonneg)
  have "initQuant sc ! i ! j = word_of_int (clamp 1 255 ?x1)"
    using assms(2,3) length_unscaledQuant length_unscaledQuant_nth [OF assms(2)]
    by (simp add: initQuant_def Let_def sd clamp_def)
  moreover have "0 \<le> clamp 1 255 ?x1" "clamp 1 255 ?x1 < 256" by (simp_all add: clamp_def)
  ultimately show ?thesis by (simp add: uint_word_of_int take_bit_eq_mod)
qed

lemma clipQuality_eq:
  "clipQuality o' = (case o' of None \<Rightarrow> 75 | Some opts \<Rightarrow> clamp 1 100 (Quality opts))"
  by (simp add: clipQuality_def DefaultQuality_def clamp_def split: option.splits)

text \<open>
  Claim C5. The quality used is 75 without options and otherwise the quality of the
  options clamped to [1, 100]. For every quality value \<open>q\<close> so obtained, the scale is
  \<open>5000/q\<close> when \<open>q < 50\<close> and \<open>200 - 2*q\<close> otherwise, and each entry of the two scaled
  quantization tables is \<open>clamp(1, 255, (base*scale + 50) / 100)\<close> of the unscaled entry,
  hence lies in [1, 255].
\<close>

theorem quant_tables_scaled:
  assumes "i < 2" and "j < 64"
    and "q = (case o' of None \<Rightarrow> 75 | Some opts \<Rightarrow> clamp 1 100 (Quality opts))"
    and "sc = (if q < 50 then 5000 div q else 200 - 2 * q)"
  shows "clipQuality o' = q \<and> 1 \<le> q \<and> q \<le> 100 \<and> scaleFactor q = sc \<and>
         uint (initQuant (scaleFactor (clipQuality o')) ! i ! j) =
           clamp 1 255 ((uint (unscaledQuant ! i ! j) * sc + 50) div 100) \<and>
         1 \<le> uint (initQuant (scaleFactor (clipQuality o')) ! i ! j) \<and>
         uint (initQuant (scaleFactor (clipQuality o')) ! i ! j) \<le> 255"
proof -
  have q: "clipQuality o' = q" using assms(3) by (simp add: clipQuality_eq)
  have r: "1 \<le> q" "q \<le> 100" using clipQuality_range [of o'] q by auto
  have s: "scaleFactor q = sc" using scaleFactor_eq [OF r(1)] assms(4) by simp
  have nn: "0 \<le> scaleFactor q" using r by (rule scaleFactor_nonneg)
  show ?thesis
    using q r s initQuant_nth [OF nn assms(1,2)] by (simp add: clamp_def)
qed

theorem quant_tables_scaled_witness:
  "clipQuality (Some \<lparr>Quality = 10, Progressive = False, ScanScript = None\<rparr>) = 10 \<and>
   scaleFactor 10 = 500 \<and>
   uint (initQuant (scaleFactor (clipQuality
           (Some \<lparr>Quality = 10, Progressive = False, ScanScript = None\<rparr>))) ! 0 ! 0) = 80 \<and>
   clipQuality (Some \<lparr>Quality = 150, Progressive = False, ScanScript = None\<rparr>) = 100 \<and>
   scaleFactor 100 = 0 \<and>
   uint (initQuant (scaleFactor (clipQuality
           (Some \<lparr>Quality = 150, Progressive = False, ScanScript = None\<rparr>))) ! 1 ! 63) = 1 \<and>
   clipQuality (Some \<lparr>Quality = - 3, Progressive = False, ScanScript = None\<rparr>) = 1 \<and>
   clipQuality None = 75 \<and> scaleFactor 75 = 50 \<and>
   uint (initQuant (scaleFactor (clipQuality None)) ! 0 ! 0) = 8"
proof -
  have u: "unscaledQuant ! 0 ! 0 = 16" "unscaledQuant ! 1 ! 63 = 99"
    by (simp_all add: unscaledQuant_def)
  have a: "clipQuality (Some \<lparr>Quality = 10, Progressive = False, ScanScript = None\<rparr>) = 10 \<and>
        scaleFactor 10 = 500 \<and>
        uint (initQuant (scaleFactor (clipQuality
           (Some \<lparr>Quality = 10, Progressive = False, ScanScript = None\<rparr>))) ! 0 ! 0) = 80"
    using quant_tables_scaled [of 0 0 10
            "Some \<lparr>Quality = 10, Progressive = False, ScanScript = None\<rparr>" 500]
    by (auto simp: clamp_def u)
  have b: "clipQuality (Some \<lparr>Quality = 150, Progressive = False, ScanScript = None\<rparr>) = 100 \<and>
        scaleFactor 100 = 0 \<and>
        uint (initQuant (scaleFactor (clipQuality
           (Some \<lparr>Quality = 150, Progressive = False, ScanScript = None\<rparr>))) ! 1 ! 63) = 1"
    using quant_tables_scaled [of 1 63 100
            "Some \<lparr>Quality = 150, Progressive = False, ScanScript = None\<rparr>" 0]
    by (auto simp: clamp_def u)
  have c: "clipQuality (Some \<lparr>Quality = - 3, Progressive = False, ScanScript = None\<rparr>) = 1"
    using quant_tables_scaled [of 0 0 1
            "Some \<lparr>Quality = - 3, Progressive = False, ScanScript = None\<rparr>" 5000]
    by (auto simp: clamp_def)
  have d: "clipQuality None = 75 \<and> scaleFactor 75 = 50 \<and>
        uint (initQuant (scaleFactor (clipQuality None)) ! 0 ! 0) = 8"
    using quant_tables_scaled [of 0 0 75 None 50]
    by (auto simp: clamp_def u)
  show ?thesis using a b c d by blast
qed

section \<open>Byte stuffing\<close>

lemma stuffed_Cons: "x \<noteq> 0xff \<Longrightarrow> stuffed (x # ys) = stuffed ys"
  by (cases ys) auto

lemma stuffed_append: "stuffed xs \<Longrightarrow> stuffed ys \<Longrightarrow> stuffed (xs @ ys)"
  by (induction xs rule: stuffed.induct) (auto simp: stuffed_Cons split: if_splits)

lemma appends_emitted: "appends e e' bs \<Longrightarrow> emitted e e' = bs"
  by (simp add: appends_def emitted_def)

lemma appends_refl: "appends e e []"
  by (simp add: appends_def)

lemma appends_trans:
  assumes "appends e e1 bs" and "appends e1 e2 cs"
  shows "appends e e2 (bs @ cs)"
proof (cases "err e1 = None")
  case True
  then have "err e = None" using assms(1) by (auto simp: appends_def)
  then show ?thesis using assms True by (auto simp: appends_def)
next
  case False
  then have "cs = []" "err e2 = err e1" using assms(2) by (auto simp: appends_def)
  then show ?thesis using assms by (auto simp: appends_def)
qed

lemma stuffs_refl: "stuffs e e []"
  by (simp add: stuffs_def appends_def)

lemma stuffs_trans:
  assumes "stuffs e e1 bs" and "stuffs e1 e2 cs"
  shows "stuffs e e2 (bs @ cs)"
proof (cases "err e1 = None")
  case True
  then have "stuffed bs" using assms(1) by (simp add: stuffs_def)
  then have "stuffed (bs @ (cs @ [0]))" "err e2 = None \<longrightarrow> stuffed (bs @ cs)"
    using assms(2) by (auto simp: stuffs_def intro: stuffed_append)
  then show ?thesis using assms by (auto simp: stuffs_def appends_def)
next
  case False
  then have "cs = []" "err e2 = err e1" using assms(2) by (auto simp: stuffs_def appends_def)
  then show ?thesis using assms False by (auto simp: stuffs_def appends_def)
qed

lemma writeByte_appends:
  "appends e (writeByte e b) (if err (writeByte e b) = None \<and> err e = None then [b] else [])"
  by (auto simp: appends_def writeByte_def WriteByte_def split: prod.splits if_splits)

lemma writeByte_stuffs: "b \<noteq> 0xff \<Longrightarrow> \<exists>bs. stuffs e (writeByte e b) bs"
  using writeByte_appends [of e b] by (auto simp: stuffs_def)

lemma writeByte_ff_stuffs: "\<exists>bs. stuffs e (writeByte (writeByte e 0xff) 0x00) bs"
proof -
  define e1 where "e1 = writeByte e 0xff"
  define e2 where "e2 = writeByte e1 0x00"
  define bs where "bs = (if err e1 = None \<and> err e = None then [0xff :: byte] else [])"
  define cs where "cs = (if err e2 = None \<and> err e1 = None then [0x00 :: byte] else [])"
  have a: "appends e e1 bs" "appends e1 e2 cs"
    unfolding e1_def e2_def bs_def cs_def by (rule writeByte_appends)+
  have app: "appends e e2 (bs @ cs)"
    using a by (auto simp: appends_def)
  have k: "err e1 \<noteq> None \<Longrightarrow> err e2 = err e1"
    by (simp add: e2_def writeByte_def)
  have s1: "stuffed ((bs @ cs) @ [0x00])"
    by (simp add: bs_def cs_def)
  have s2: "err e2 = None \<longrightarrow> stuffed (bs @ cs)"
    using k by (auto simp: bs_def cs_def)
  have "stuffs e e2 (bs @ cs)"
    using app s1 s2 by (simp add: stuffs_def)
  then show ?thesis unfolding e1_def e2_def ..
qed

lemma emit_loop_stuffs: "\<exists>bs. stuffs e (emit_loop e acc n) bs"
proof (induction e acc n rule: emit_loop.induct)
  case (1 e acc n)
  show ?case
  proof (cases "8 \<le> n")
    case False
    then have "emit_loop e acc n = e\<lparr>bits := acc, nBits := n\<rparr>"
      by (subst emit_loop.simps) simp
    then have "stuffs e (emit_loop e acc n) []" by (simp add: stuffs_def appends_def)
    then show ?thesis ..
  next
    case True
    define b where "b = (ucast (drop_bit 24 acc) :: byte)"
    define e2 where "e2 = (if b = 0xff then writeByte (writeByte e b) 0x00 else writeByte e b)"
    have step: "emit_loop e acc n = emit_loop e2 (push_bit 8 acc) (n - 8)"
      using True by (subst emit_loop.simps) (simp add: Let_def e2_def b_def)
    have "\<exists>bs. stuffs e2 (emit_loop e2 (push_bit 8 acc) (n - 8)) bs"
      using "1.IH" [OF True refl refl refl] by (auto simp: e2_def b_def)
    then obtain cs where cs: "stuffs e2 (emit_loop e acc n) cs" using step by auto
    have "\<exists>bs. stuffs e e2 bs"
    proof (cases "b = 0xff")
      case True
      then show ?thesis using writeByte_ff_stuffs [of e] by (simp add: e2_def)
    next
      case False
      then show ?thesis using writeByte_stuffs [of b e] by (simp add: e2_def)
    qed
    then obtain bs where bs: "stuffs e e2 bs" ..
    show ?thesis using stuffs_trans [OF bs cs] ..
  qed
qed

lemma emit_loop_nBits: "nBits (emit_loop e acc n) < 8"
proof (induction e acc n rule: emit_loop.induct)
  case (1 e acc n)
  show ?case
  proof (cases "8 \<le> n")
    case True
    then show ?thesis
      using "1.IH" [OF True refl refl refl] by (subst emit_loop.simps) (simp add: Let_def)
  next
    case False
    then show ?thesis by (subst emit_loop.simps) simp
  qed
qed

lemma emit_stuffs: "\<exists>bs. stuffs e (emit e v n) bs"
  unfolding emit_def Let_def by (rule emit_loop_stuffs)

lemma emit_nBits: "nBits (emit e v n) < 8"
  unfolding emit_def Let_def by (rule emit_loop_nBits)

lemma emitAll_stuffs: "\<exists>bs. stuffs e (emitAll e cs) bs"
proof (induction cs arbitrary: e)
  case Nil
  show ?case using stuffs_refl [of e] by auto
next
  case (Cons c cs)
  obtain v n where c: "c = (v, n)" by (cases c)
  obtain bs where bs: "stuffs e (emit e v n) bs" using emit_stuffs by blast
  obtain ds where ds: "stuffs (emit e v n) (emitAll (emit e v n) cs) ds" using Cons.IH by blast
  show ?case using stuffs_trans [OF bs ds] by (auto simp: c)
qed

lemma unat_div8_Suc: "(8::uint32) \<le> n \<Longrightarrow> unat n div 8 = Suc (unat (n - 8) div 8)"
proof -
  assume a: "(8::uint32) \<le> n"
  then have "unat (n - 8) = unat n - 8" by (simp add: unat_sub)
  moreover have "8 \<le> unat n" using a by (simp add: word_le_nat_alt)
  ultimately show ?thesis by (simp add: le_div_geq)
qed

lemma topBytes_Suc:
  "topBytes acc (Suc k) = ucast (drop_bit 24 acc) # topBytes (push_bit 8 acc) k"
proof -
  have "map (\<lambda>i. (ucast (drop_bit 24 (push_bit (8 * i) acc)) :: byte)) [0..<Suc k] =
        ucast (drop_bit 24 (push_bit (8 * 0) acc)) #
        map (\<lambda>i. ucast (drop_bit 24 (push_bit (8 * Suc i) acc))) [0..<k]"
    by (simp only: upt_conv_Cons [of 0 "Suc k"] map_Suc_upt [symmetric] list.map zero_less_Suc
        map_map o_def)
  moreover have "\<And>i. push_bit (8 * Suc i) acc = push_bit (8 * i) (push_bit 8 acc)"
    by (simp add: push_bit_push_bit add.commute)
  ultimately show ?thesis by (simp add: topBytes_def)
qed

lemma stuffed_stuff: "stuffed (stuff bs)"
  by (induction bs) (auto simp: stuffed_Cons)

lemma stuffs_err_None: "stuffs e e' bs \<Longrightarrow> err e' = None \<Longrightarrow> err e = None"
  by (auto simp: stuffs_def appends_def)

lemma writeByte_err_None: "err (writeByte e b) = None \<Longrightarrow> err e = None"
  by (auto simp: writeByte_def split: if_splits)

lemma emit_loop_bytes:
  "err (emit_loop e acc n) = None \<Longrightarrow>
   appends e (emit_loop e acc n) (stuff (topBytes acc (unat n div 8)))"
proof (induction e acc n rule: emit_loop.induct)
  case (1 e acc n)
  show ?case
  proof (cases "8 \<le> n")
    case False
    then have "unat n div 8 = 0" by (simp add: word_le_nat_alt)
    moreover have "emit_loop e acc n = e\<lparr>bits := acc, nBits := n\<rparr>"
      using False by (subst emit_loop.simps) simp
    ultimately show ?thesis by (simp add: appends_def topBytes_def)
  next
    case True
    define b where "b = (ucast (drop_bit 24 acc) :: byte)"
    define e2 where "e2 = (if b = 0xff then writeByte (writeByte e b) 0x00 else writeByte e b)"
    have step: "emit_loop e acc n = emit_loop e2 (push_bit 8 acc) (n - 8)"
      using True by (subst emit_loop.simps) (simp add: Let_def e2_def b_def)
    obtain cs where cs: "stuffs e2 (emit_loop e acc n) cs"
      using emit_loop_stuffs [of e2 "push_bit 8 acc" "n - 8"] step by auto
    have e2n: "err e2 = None" using stuffs_err_None [OF cs "1.prems"] .
    have IH: "appends e2 (emit_loop e acc n) (stuff (topBytes (push_bit 8 acc) (unat (n - 8) div 8)))"
      using "1.IH" [OF True refl refl refl] "1.prems" step by (auto simp: e2_def b_def)
    have first: "appends e e2 (stuff [b])"
    proof (cases "b = 0xff")
      case False
      then have "e2 = writeByte e b" by (simp add: e2_def)
      then show ?thesis
        using writeByte_appends [of e b] e2n writeByte_err_None [of e b] False by simp
    next
      case True
      then have e2': "e2 = writeByte (writeByte e b) 0x00" by (simp add: e2_def)
      have n1: "err (writeByte e b) = None" using e2n writeByte_err_None e2' by blast
      have n0: "err e = None" using n1 writeByte_err_None by blast
      have "appends e (writeByte e b) [b]" using writeByte_appends [of e b] n1 n0 by simp
      moreover have "appends (writeByte e b) e2 [0x00]"
        using writeByte_appends [of "writeByte e b" "0x00"] e2n n1 e2' by simp
      ultimately show ?thesis using True by (auto simp: appends_def)
    qed
    have "appends e (emit_loop e acc n)
            (stuff [b] @ stuff (topBytes (push_bit 8 acc) (unat (n - 8) div 8)))"
      using first IH by (auto simp: appends_def)
    moreover have "stuff [b] @ stuff (topBytes (push_bit 8 acc) (unat (n - 8) div 8)) =
                   stuff (topBytes acc (unat n div 8))"
      by (simp add: unat_div8_Suc [OF True] topBytes_Suc b_def)
    ultimately show ?thesis by simp
  qed
qed

lemma emit_bytes:
  "err (emit e v n) = None \<Longrightarrow>
   emitted e (emit e v n) =
     stuff (topBytes (push_bit (unat (32 - (n + nBits e))) v OR bits e) (unat (n + nBits e) div 8))"
  unfolding emit_def Let_def by (rule appends_emitted, rule emit_loop_bytes)

text \<open>
  Claim C6, as stated, fails when the sink refuses the stuffed byte: after the call
  \<open>emit(0xff, 8)\<close>, which satisfies the precondition, on a sink that accepts \<open>0xFF\<close> and
  refuses \<open>0x00\<close>, the sink holds the single byte \<open>0xFF\<close>, not followed by \<open>0x00\<close>, and
  the encoder has a write error.
\<close>

theorem emit_lone_ff_counterexample:
  "(0xff :: uint32) < push_bit 8 1 \<and> (8 :: uint32) \<le> 16 \<and>
   accepted (w (emitAll encNZ [(0xff, 8)])) = [0xff] \<and>
   err (emitAll encNZ [(0xff, 8)]) = Some WriteError \<and>
   \<not> stuffed (emitted encNZ (emitAll encNZ [(0xff, 8)]))"
  by code_simp

text \<open>
  Claim C6, amended. After every call of \<open>emit\<close> fewer than 8 bits stay in the
  accumulator: while it holds 8 bits or more the top byte is written out, so that
  without a write error the bytes written by a call are the successive top bytes of the
  accumulator, each \<open>0xFF\<close> followed by a \<open>0x00\<close>. For every sequence of calls of \<open>emit\<close>,
  whatever their arguments: the sink keeps what it held and receives the bytes emitted;
  when the encoder ends without a write error, every \<open>0xFF\<close> among these bytes is
  immediately followed by a \<open>0x00\<close>; in every case this holds of every \<open>0xFF\<close> but a last
  one whose \<open>0x00\<close> the sink refused (the bytes with a \<open>0x00\<close> appended are stuffed).
\<close>

theorem emit_byte_stuffing:
  "nBits (emit e v n) < 8 \<and>
   (err (emit e v n) = None \<longrightarrow>
      emitted e (emit e v n) =
        stuff (topBytes (push_bit (unat (32 - (n + nBits e))) v OR bits e)
                 (unat (n + nBits e) div 8))) \<and>
   accepted (w (emitAll e cs)) = accepted (w e) @ emitted e (emitAll e cs) \<and>
   stuffed (emitted e (emitAll e cs) @ [0x00]) \<and>
   (err (emitAll e cs) = None \<longrightarrow> stuffed (emitted e (emitAll e cs)))"
proof -
  obtain bs where bs: "stuffs e (emitAll e cs) bs" using emitAll_stuffs by blast
  then have "emitted e (emitAll e cs) = bs" by (simp add: stuffs_def appends_emitted)
  then show ?thesis using bs emit_nBits [of e v n] emit_bytes [of e v n]
    by (simp add: stuffs_def appends_def)
qed

theorem emit_byte_stuffing_witness:
  "err (emit enc0 0xff 8) = None \<and> emitted enc0 (emit enc0 0xff 8) = [0xff, 0x00] \<and>
   err (emitAll enc0 [(0x1ff, 9), (0x7f, 7)]) = None \<and>
   stuffed (emitted enc0 (emitAll enc0 [(0x1ff, 9), (0x7f, 7)]))"
proof -
  have a: "err (emit enc0 0xff 8) = None"
    by code_simp
  have b: "err (emitAll enc0 [(0x1ff, 9), (0x7f, 7)]) = None"
    by code_simp
  have c: "topBytes (push_bit (unat (32 - (8 + nBits enc0))) 0xff OR bits enc0)
             (unat (8 + nBits enc0) div 8) = [0xff]"
    by (simp add: enc0_def topBytes_def)
  show ?thesis
    using emit_byte_stuffing [of enc0 "0xff" 8 "[(0x1ff, 9), (0x7f, 7)]"] a b c
    by simp
qed

section \<open>What the operations of the encoder do to the sink\<close>

lemma grows_refl: "grows e e"
  unfolding grows_def using appends_refl by blast

lemma grows_trans: "grows e e1 \<Longrightarrow> grows e1 e2 \<Longrightarrow> grows e e2"
  unfolding grows_def using appends_trans by blast

lemma grows_bits: "grows e (e\<lparr>bits := a, nBits := n\<rparr>)"
  unfolding grows_def by (rule exI [of _ "[]"]) (simp add: appends_def)

lemma grows_quant: "grows e e' \<Longrightarrow> quant e' = quant e"
  by (auto simp: grows_def appends_def)

lemma grows_err: "grows e e' \<Longrightarrow> err e = None \<Longrightarrow> err e' = None \<or> err e' = Some WriteError"
  by (auto simp: grows_def appends_def)

lemma grows_accepted: "grows e e' \<Longrightarrow> \<exists>bs. accepted (w e') = accepted (w e) @ bs"
  by (auto simp: grows_def appends_def)

lemma stuffs_grows: "stuffs e e' bs \<Longrightarrow> grows e e'"
  by (auto simp: grows_def stuffs_def)

lemma writeByte_grows: "grows e (writeByte e b)"
  unfolding grows_def using writeByte_appends by blast

lemma Write_result:
  "Write wr p = (r, wr') \<Longrightarrow>
   (\<exists>bs. accepted wr' = accepted wr @ bs) \<and> accepts wr' = accepts wr \<and>
   flushes wr' = flushes wr \<and> (r = None \<or> r = Some WriteError)"
proof (induction p arbitrary: wr)
  case Nil
  then show ?case by simp
next
  case (Cons b p)
  show ?case
  proof (cases "accepts wr (accepted wr) b")
    case True
    then have "Write (wr\<lparr>accepted := accepted wr @ [b]\<rparr>) p = (r, wr')"
      using Cons.prems by (simp add: WriteByte_def)
    from Cons.IH [OF this] show ?thesis by auto
  next
    case False
    then show ?thesis using Cons.prems by (auto simp: WriteByte_def)
  qed
qed

lemma writeBytes_grows: "grows e (writeBytes e p)"
proof (cases "err e = None")
  case False
  then have "writeBytes e p = e" by (simp add: writeBytes_def)
  then show ?thesis by (simp add: grows_refl)
next
  case True
  obtain r wr' where rw: "Write (w e) p = (r, wr')" by (cases "Write (w e) p")
  from Write_result [OF rw] obtain bs where
    "accepted wr' = accepted (w e) @ bs" "accepts wr' = accepts (w e)"
    "flushes wr' = flushes (w e)" "r = None \<or> r = Some WriteError" by auto
  then have "appends e (writeBytes e p) bs"
    using True rw by (auto simp: writeBytes_def appends_def)
  then show ?thesis unfolding grows_def ..
qed

lemma flush_grows: "grows e (flush e)"
  unfolding grows_def
  by (rule exI [of _ "[]"]) (simp add: appends_def flush_def Flush_def)

lemma emit_grows: "grows e (emit e v n)"
  using emit_stuffs [of e v n] stuffs_grows by blast

lemma emitHuff_grows: "emitHuff e h v = Inr e' \<Longrightarrow> grows e e'"
  by (auto simp: emitHuff_def bindE_eq_Inr emit_grows)

lemma emitHuffRLE_grows: "emitHuffRLE e h r v = Inr e' \<Longrightarrow> grows e e'"
  by (auto simp: emitHuffRLE_def bindE_eq_Inr Let_def split: if_splits prod.splits
      intro: grows_trans [OF emitHuff_grows emit_grows] emitHuff_grows)

lemma zrlLoop_grows: "zrlLoop e h r = Inr (e', r') \<Longrightarrow> grows e e'"
proof (induction e h r rule: zrlLoop.induct)
  case (1 e h r)
  show ?case
  proof (cases "15 < r")
    case False
    then show ?thesis using "1.prems" by (subst (asm) zrlLoop.simps) (simp add: grows_refl)
  next
    case True
    then obtain e1 where e1: "emitHuff e h 0xf0 = Inr e1" "zrlLoop e1 h (r - 16) = Inr (e', r')"
      using "1.prems" by (subst (asm) zrlLoop.simps) (auto split: sum.splits)
    show ?thesis
      using grows_trans [OF emitHuff_grows [OF e1(1)] "1.IH" [OF True e1(1) e1(2)]] .
  qed
qed

lemma coef_quant: "quant e' = quant e \<Longrightarrow> coef x e' b q zig = coef x e b q zig"
  by (simp add: coef_def)

lemma acLoop_grows: "acLoop x e b q h r zig se = Inr (e', r') \<Longrightarrow> grows e e'"
proof (induction x e b q h r zig se rule: acLoop.induct)
  case (1 x e b q h r zig se)
  show ?case
  proof (cases "zig \<le> se")
    case False
    then show ?thesis using "1.prems" by (subst (asm) acLoop.simps) (simp add: grows_refl)
  next
    case True
    then obtain ac where ac: "coef x e b q zig = Inr ac"
      using "1.prems" by (subst (asm) acLoop.simps) (auto split: sum.splits)
    show ?thesis
    proof (cases "ac = 0")
      case True
      have "acLoop x e b q h (r + 1) (zig + 1) se = Inr (e', r')"
        using "1.prems" \<open>zig \<le> se\<close> ac True by (subst (asm) acLoop.simps) simp
      then show ?thesis using "1.IH"(1) [OF \<open>zig \<le> se\<close> ac True] by simp
    next
      case False
      obtain e1 r1 e2 where s: "zrlLoop e h r = Inr (e1, r1)"
          "emitHuffRLE e1 h (word_of_int r1) ac = Inr e2"
          "acLoop x e2 b q h 0 (zig + 1) se = Inr (e', r')"
        using "1.prems" \<open>zig \<le> se\<close> ac False
        by (subst (asm) acLoop.simps) (auto split: sum.splits prod.splits)
      have "grows e2 e'"
        using "1.IH"(2) [OF \<open>zig \<le> se\<close> ac False s(1) refl s(2) s(3)] .
      then show ?thesis
        using grows_trans [OF zrlLoop_grows [OF s(1)]
                grows_trans [OF emitHuffRLE_grows [OF s(2)]]] by blast
    qed
  qed
qed

lemma writePartialBlock_grows:
  "writePartialBlock x e b q prevDC ss se = Inr (e', d) \<Longrightarrow> grows e e'"
  by (auto simp: writePartialBlock_def Let_def bindE_eq_Inr grows_refl split: if_splits
      intro: emitHuffRLE_grows acLoop_grows grows_trans [OF acLoop_grows emitHuff_grows])

lemma writeBlock_grows: "writeBlock x e b q prevDC = Inr (e', d) \<Longrightarrow> grows e e'"
  by (auto simp: writeBlock_def Let_def bindE_eq_Inr split: if_splits
      intro: grows_trans [OF emitHuffRLE_grows acLoop_grows]
             grows_trans [OF emitHuffRLE_grows grows_trans [OF acLoop_grows emitHuff_grows]])

lemma bindE_InrE:
  assumes "bindE m f = Inr r"
  obtains a where "m = Inr a" and "f a = Inr r"
  using assms by (cases m) simp_all

lemma foldE_grows:
  assumes "\<And>a s s'. f a s = Inr s' \<Longrightarrow> grows (g s) (g s')"
    and "foldE f xs s = Inr s'"
  shows "grows (g s) (g s')"
  using assms(2)
proof (induction xs arbitrary: s)
  case Nil
  then show ?case by (simp add: grows_refl)
next
  case (Cons a xs)
  then obtain s1 where s1: "f a s = Inr s1" "foldE f xs s1 = Inr s'"
    by (auto split: sum.splits)
  show ?case using grows_trans [OF assms(1) [OF s1(1)] Cons.IH [OF s1(2)]] .
qed

lemma fold_grows:
  assumes "\<And>a e. grows e (f a e)"
  shows "grows e (fold f xs e)"
proof (induction xs arbitrary: e)
  case Nil
  show ?case by (simp add: grows_refl)
next
  case (Cons a xs)
  show ?case using grows_trans [OF assms [of e a] Cons.IH [of "f a e"]] by simp
qed

lemma growingD: "growing processor \<Longrightarrow> processor e b q d = Inr (e', d') \<Longrightarrow> grows e e'"
  unfolding growing_def by blast

lemma procY_grows:
  "growing processor \<Longrightarrow> procY processor b st = Inr st' \<Longrightarrow> grows (enc st) (enc st')"
  unfolding procY_def by (erule bindE_InrE) (auto dest: growingD)

lemma procCb_grows:
  "growing processor \<Longrightarrow> procCb processor b st = Inr st' \<Longrightarrow> grows (enc st) (enc st')"
  unfolding procCb_def by (erule bindE_InrE) (auto dest: growingD)

lemma procCr_grows:
  "growing processor \<Longrightarrow> procCr processor b st = Inr st' \<Longrightarrow> grows (enc st) (enc st')"
  unfolding procCr_def by (erule bindE_InrE) (auto dest: growingD)

lemma processMCU_grows:
  assumes p: "growing processor"
    and r: "processMCU m component processor y xx st = Inr st'"
  shows "grows (enc st) (enc st')"
proof -
  from r obtain s1 s2 where
    s1: "foldE (\<lambda>i s. if component = - 1 \<or> component = 0
            then procY processor
                   (fst (toBlocks m (xx + int (i AND 1) * 8) (y + int (i AND 2) * 4))) s
            else Inr s) [0..<4] st = Inr s1"
    and s2: "(if component = - 1 \<or> component = 1
          then procCb processor
                 (scale (map (\<lambda>i. fst (snd (toBlocks m (xx + int (i AND 1) * 8)
                                                (y + int (i AND 2) * 4)))) [0..<4])) s1
          else Inr s1) = Inr s2"
    and s3: "(if component = - 1 \<or> component = 2
          then procCr processor
                 (scale (map (\<lambda>i. snd (snd (toBlocks m (xx + int (i AND 1) * 8)
                                                (y + int (i AND 2) * 4)))) [0..<4])) s2
          else Inr s2) = Inr st'"
    unfolding processMCU_def Let_def by (elim bindE_InrE) blast
  have g1: "grows (enc st) (enc s1)"
    by (rule foldE_grows [of _ enc, OF _ s1])
       (auto split: if_splits simp: grows_refl dest: procY_grows [OF p])
  have g2: "grows (enc s1) (enc s2)"
    using s2 by (auto split: if_splits simp: grows_refl dest: procCb_grows [OF p])
  have g3: "grows (enc s2) (enc st')"
    using s3 by (auto split: if_splits simp: grows_refl dest: procCr_grows [OF p])
  show ?thesis using grows_trans [OF g1 grows_trans [OF g2 g3]] .
qed

lemma foldE2_grows:
  assumes "\<And>y a s s'. f y a s = Inr s' \<Longrightarrow> grows (g s) (g s')"
    and "foldE (\<lambda>y. foldE (f y) xs) ys s = Inr s'"
  shows "grows (g s) (g s')"
proof (rule foldE_grows [of "\<lambda>y. foldE (f y) xs" g, OF _ assms(2)])
  fix y s1 s2
  assume "foldE (f y) xs s1 = Inr s2"
  then show "grows (g s1) (g s2)"
    using foldE_grows [of "f y" g xs s1 s2] assms(1) by blast
qed

lemma processImageBlocks_cases:
  assumes "processImageBlocks e m component processor = Inr e'"
  obtains s where "enc s = e'" and
    "foldE (\<lambda>y. foldE (\<lambda>xx. procY processor (fst (toBlocks m xx y)))
                   (steps (minX m) (maxX m) 8))
       (steps (minY m) (maxY m) 8) \<lparr>enc = e, prevDCY = 0, prevDCCb = 0, prevDCCr = 0\<rparr> = Inr s"
    and "kind m = Gray \<or> component = 0"
  | s where "enc s = e'" and
    "foldE (\<lambda>y. foldE (processMCU m component processor y) (steps (minX m) (maxX m) 16))
       (steps (minY m) (maxY m) 16) \<lparr>enc = e, prevDCY = 0, prevDCCb = 0, prevDCCr = 0\<rparr> = Inr s"
    and "kind m \<noteq> Gray" and "component \<noteq> 0"
  using assms unfolding processImageBlocks_def Let_def
  by (elim bindE_InrE, cases "kind m") (auto split: if_splits)

lemma processImageBlocks_grows:
  assumes p: "growing processor"
    and r: "processImageBlocks e m component processor = Inr e'"
  shows "grows e e'"
  using r
proof (cases rule: processImageBlocks_cases)
  case (1 s)
  show ?thesis
    using foldE2_grows [of "\<lambda>y xx. procY processor (fst (toBlocks m xx y))" enc, OF _ 1(2)]
      procY_grows [OF p] 1(1) by simp
next
  case (2 s)
  show ?thesis
    using foldE2_grows [of "processMCU m component processor" enc, OF _ 2(2)]
      processMCU_grows [OF p] 2(1) by simp
qed

lemma growing_writePartialBlock:
  "growing (\<lambda>e' b q p. writePartialBlock x e' b q p zs ze)"
  unfolding growing_def using writePartialBlock_grows by blast

lemma growing_writeBlock: "growing (writeBlock x)"
  unfolding growing_def using writeBlock_grows by blast

lemma finishScan_grows: "grows e (finishScan e)"
proof -
  define e1 where "e1 = emit e 0x7f 7"
  define e2 where "e2 = (if 0 < nBits e1
                         then emit e1 (push_bit (unat (8 - nBits e1)) 1 - 1) (8 - nBits e1)
                         else e1)"
  have a: "grows e e1" by (simp add: e1_def emit_grows)
  have b: "grows e1 e2" by (simp add: e2_def emit_grows grows_refl)
  have c: "grows e2 (e2\<lparr>bits := 0, nBits := 0\<rparr>)" by (rule grows_bits)
  have "finishScan e = e2\<lparr>bits := 0, nBits := 0\<rparr>"
    by (simp add: finishScan_def Let_def e1_def e2_def)
  then show ?thesis using grows_trans [OF a grows_trans [OF b c]] by simp
qed

text \<open>The header that \<open>writeProgressiveSOS\<close> writes before the blocks.\<close>

lemma writeProgressiveSOS_cases:
  assumes "writeProgressiveSOS x e m zs ze a1 a0 component = Inr e'"
  obtains e2 e3 where "grows e e2" and "bits e2 = bits e" and "nBits e2 = nBits e"
    and "processImageBlocks e2 m component (\<lambda>e' b q p. writePartialBlock x e' b q p zs ze) = Inr e3"
    and "e' = finishScan e3"
proof -
  define e1 where "e1 = (if component \<noteq> - 1
             then writeBytes e [0xff, 0xda, 0x00, 0x08, 0x01, word_of_int (component + 1),
                                (if component = 1 \<or> component = 2 then 0x11 else 0x00)]
             else writeBytes e [0xff, 0xda, 0x00, 0x0c, 0x03, 0x01, 0x00, 0x02,
                                0x11, 0x03, 0x11])"
  define e2 where "e2 = writeBytes e1 [word_of_int zs, word_of_int ze,
               push_bit 4 (word_of_int a1 :: byte) OR (word_of_int a0 AND 0x0F)]"
  from assms obtain e3 where e3:
    "processImageBlocks e2 m component (\<lambda>e' b q p. writePartialBlock x e' b q p zs ze) = Inr e3"
    "Inr (finishScan e3) = (Inr e' :: error + encoder)"
    unfolding writeProgressiveSOS_def Let_def e1_def [symmetric] e2_def [symmetric]
    by (elim bindE_InrE) blast
  have g1: "grows e e1" by (simp add: e1_def writeBytes_grows)
  have g2: "grows e1 e2" unfolding e2_def by (rule writeBytes_grows)
  have b: "bits e2 = bits e" "nBits e2 = nBits e"
    by (auto simp: e2_def e1_def writeBytes_def split: prod.splits)
  show ?thesis using that [OF grows_trans [OF g1 g2] b e3(1)] e3(2) by simp
qed

lemma writeProgressiveSOS_grows:
  assumes "writeProgressiveSOS x e m zs ze a1 a0 component = Inr e'"
  shows "grows e e'"
  using assms
proof (cases rule: writeProgressiveSOS_cases)
  case (1 e2 e3)
  have "grows e2 e3"
    by (rule processImageBlocks_grows [OF growing_writePartialBlock 1(4)])
  then show ?thesis
    using grows_trans [OF 1(1) grows_trans [OF _ finishScan_grows]] 1(5) by blast
qed

lemma writeSOS_grows:
  assumes "writeSOS x e m = Inr e'"
  shows "grows e e'"
proof -
  define e1 where "e1 = writeBytes e (case kind m of Gray \<Rightarrow> sosHeaderY | _ \<Rightarrow> sosHeaderYCbCr)"
  from assms obtain e2 where e2: "processImageBlocks e1 m (- 1) (writeBlock x) = Inr e2"
      "Inr (emit e2 0x7f 7) = (Inr e' :: error + encoder)"
    unfolding writeSOS_def Let_def e1_def [symmetric] by (elim bindE_InrE) blast
  have a: "grows e e1" unfolding e1_def by (rule writeBytes_grows)
  have b: "grows e1 e2"
    by (rule processImageBlocks_grows [OF growing_writeBlock e2(1)])
  have c: "grows e2 e'" using e2(2) emit_grows by auto
  show ?thesis using grows_trans [OF a grows_trans [OF b c]] .
qed

lemma writeMarkerHeader_grows: "grows e (writeMarkerHeader e marker markerlen)"
  by (simp add: writeMarkerHeader_def writeBytes_grows)

lemma writeDQT_grows: "grows e (writeDQT x e)"
  unfolding writeDQT_def
  by (rule grows_trans [OF writeMarkerHeader_grows fold_grows])
     (rule grows_trans [OF writeByte_grows writeBytes_grows])

lemma writeDHT_grows: "grows e (writeDHT x e nComponent)"
proof -
  have "grows e' ((\<lambda>(i, s) e'.
          writeBytes (writeBytes (writeByte e' ([0x00, 0x10, 0x01, 0x11] ! i)) (count s))
            (val s)) a e')" for a :: "nat \<times> huffmanSpec" and e'
    by (cases a)
       (simp add: grows_trans [OF writeByte_grows grows_trans [OF writeBytes_grows writeBytes_grows]])
  then show ?thesis
    unfolding writeDHT_def Let_def
    by (intro grows_trans [OF writeMarkerHeader_grows fold_grows])
qed

lemma writeSOF_grows: "writeSOF e sx sy nComponent marker = Inr e' \<Longrightarrow> grows e e'"
  unfolding writeSOF_def Let_def
  by (auto split: if_splits intro: grows_trans [OF writeMarkerHeader_grows writeBytes_grows])

lemma writeProgressive_grows:
  assumes "writeProgressive x e m nComponent o' = Inr e'"
  shows "grows e e'"
proof -
  from assms obtain e1 where s: "writeSOF e (Dx m) (Dy m) nComponent (sof2Marker x) = Inr e1"
    "foldE (\<lambda>scan e'.
              writeProgressiveSOS x e' m (SpectralStart scan) (SpectralEnd scan)
                (SuccessiveApproxHigh scan) (SuccessiveApproxLow scan) (Component scan))
       (chooseScript nComponent o') (writeDHT x e1 nComponent) = Inr e'"
    unfolding writeProgressive_def by (elim bindE_InrE) blast
  have "grows (writeDHT x e1 nComponent) e'"
    by (rule foldE_grows [of _ "\<lambda>e. e", OF _ s(2)]) (rule writeProgressiveSOS_grows)
  then show ?thesis
    using grows_trans [OF writeSOF_grows [OF s(1)] grows_trans [OF writeDHT_grows]] by blast
qed

text \<open>
  What \<open>Encode\<close> returns for an image that is not too large: no error or a write error,
  and a sink that holds what it held before and the bytes written.
\<close>

lemma Encode_result:
  assumes "Dx m < 65536" and "Dy m < 65536" and "Encode x wr m o' = Inr (r, wr')"
  shows "(r = None \<or> r = Some WriteError) \<and> (\<exists>bs. accepted wr' = accepted wr @ bs)"
proof -
  define e0 where "e0 = \<lparr>w = wr, err = None, bits = 0, nBits = 0,
                          quant = initQuant (scaleFactor (clipQuality o'))\<rparr>"
  define e2 where "e2 = writeDQT x (writeBytes e0 [0xff, 0xd8])"
  define body where "body =
     (if (case o' of None \<Rightarrow> False | Some opts \<Rightarrow> Progressive opts)
      then writeProgressive x e2 m (nComponentOf m) o'
      else bindE (writeSOF e2 (Dx m) (Dy m) (nComponentOf m) (sof0Marker x)) (\<lambda>e3.
             writeSOS x (writeDHT x e3 (nComponentOf m)) m))"
  have "Encode x wr m o' =
          bindE body (\<lambda>e4. Inr (err (flush (writeBytes e4 [0xff, 0xd9])),
                                 w (flush (writeBytes e4 [0xff, 0xd9]))))"
    using assms(1,2) unfolding Encode_def Let_def body_def e2_def e0_def by simp
  then have "bindE body (\<lambda>e4. Inr (err (flush (writeBytes e4 [0xff, 0xd9])),
                                    w (flush (writeBytes e4 [0xff, 0xd9])))) = Inr (r, wr')"
    using assms(3) by simp
  then obtain e4 where e4: "body = Inr e4"
    "r = err (flush (writeBytes e4 [0xff, 0xd9]))" "wr' = w (flush (writeBytes e4 [0xff, 0xd9]))"
    by (elim bindE_InrE) auto
  have g02: "grows e0 e2"
    unfolding e2_def by (rule grows_trans [OF writeBytes_grows writeDQT_grows])
  have g24: "grows e2 e4"
  proof (cases "case o' of None \<Rightarrow> False | Some opts \<Rightarrow> Progressive opts")
    case True
    then show ?thesis using e4(1) writeProgressive_grows by (simp add: body_def)
  next
    case False
    then have "bindE (writeSOF e2 (Dx m) (Dy m) (nComponentOf m) (sof0Marker x)) (\<lambda>e3.
             writeSOS x (writeDHT x e3 (nComponentOf m)) m) = Inr e4"
      using e4(1) by (simp add: body_def)
    then obtain e3 where e3: "writeSOF e2 (Dx m) (Dy m) (nComponentOf m) (sof0Marker x) = Inr e3"
        "writeSOS x (writeDHT x e3 (nComponentOf m)) m = Inr e4"
      by (elim bindE_InrE) blast
    show ?thesis
      using grows_trans [OF writeSOF_grows [OF e3(1)]
              grows_trans [OF writeDHT_grows writeSOS_grows [OF e3(2)]]] .
  qed
  have "grows e4 (flush (writeBytes e4 [0xff, 0xd9]))"
    by (rule grows_trans [OF writeBytes_grows flush_grows])
  then have "grows e0 (flush (writeBytes e4 [0xff, 0xd9]))"
    using grows_trans [OF g02 grows_trans [OF g24]] by blast
  then show ?thesis
    using grows_err [of e0] grows_accepted [of e0] e4(2,3) by (simp add: e0_def)
qed

section \<open>The size check of Encode\<close>

lemma processImageBlocks_empty:
  "maxY m \<le> minY m \<Longrightarrow> processImageBlocks e m component processor = Inr e"
  by (cases "kind m") (simp_all add: processImageBlocks_def steps_def Let_def)




section \<open>Scan scripts that fail validation\<close>

lemma checkScan_None: "checkScan i s n = None \<longleftrightarrow> scanValid s n"
  unfolding checkScan_def scanValid_def by auto

lemma validateScans_None:
  "validateScans i sc n = None \<longleftrightarrow> (\<forall>s \<in> set sc. scanValid s n)"
proof (induction sc arbitrary: i)
  case Nil
  show ?case by simp
next
  case (Cons a sc)
  show ?case
  proof (cases "checkScan i a n")
    case None
    then have "scanValid a n" by (simp add: checkScan_None)
    then show ?thesis using None Cons.IH [of "Suc i"] by simp
  next
    case (Some p)
    then have "\<not> scanValid a n" using checkScan_None [of i a n] by simp
    then show ?thesis using Some by simp
  qed
qed

lemma validateScanScript_None: "validateScanScript sc n = None \<longleftrightarrow> scriptValid sc n"
  by (auto simp: validateScanScript_def scriptValid_def validateScans_None)

lemma checkScan_error: "checkScan i s n = Some p \<Longrightarrow> \<exists>msg. p = ScanError i msg"
  unfolding checkScan_def by (auto split: if_splits)

lemma validateScans_error: "validateScans i sc n = Some p \<Longrightarrow> \<exists>j msg. p = ScanError j msg"
  by (induction sc arbitrary: i) (auto split: option.splits dest: checkScan_error)

lemma validateScanScript_error:
  "validateScanScript sc n = Some p \<Longrightarrow>
   p = EncodeError ''jpeg: scan script cannot be empty'' \<or> (\<exists>j msg. p = ScanError j msg)"
  by (auto simp: validateScanScript_def split: if_splits dest: validateScans_error)

lemma default_scripts_valid:
  "scriptValid DefaultGrayscaleScanScript 1" "scriptValid DefaultColorScanScript 3"
  by (simp_all add: scriptValid_def scanValid_def DefaultGrayscaleScanScript_def
      DefaultColorScanScript_def mkScan_def)

lemma nComponentOf_cases: "nComponentOf m = 1 \<or> nComponentOf m = 3"
  by (cases "kind m") (simp_all add: nComponentOf_def)

lemma chooseScript_invalid:
  "\<not> scriptValid sc n \<Longrightarrow>
   chooseScript n (Some \<lparr>Quality = q, Progressive = p, ScanScript = Some sc\<rparr>) =
     (if n = 3 then DefaultColorScanScript else DefaultGrayscaleScanScript)"
  by (simp add: chooseScript_def validateScanScript_None)

lemma chooseScript_nil:
  "n = 1 \<or> n = 3 \<Longrightarrow>
   chooseScript n (Some \<lparr>Quality = q, Progressive = p, ScanScript = None\<rparr>) =
     (if n = 3 then DefaultColorScanScript else DefaultGrayscaleScanScript)"
  using default_scripts_valid by (auto simp: chooseScript_def validateScanScript_None)

lemma Encode_chooseScript:
  assumes "chooseScript (nComponentOf m) (Some \<lparr>Quality = q, Progressive = True, ScanScript = s1\<rparr>) =
           chooseScript (nComponentOf m) (Some \<lparr>Quality = q, Progressive = True, ScanScript = s2\<rparr>)"
  shows "Encode x wr m (Some \<lparr>Quality = q, Progressive = True, ScanScript = s1\<rparr>) =
         Encode x wr m (Some \<lparr>Quality = q, Progressive = True, ScanScript = s2\<rparr>)"
  using assms by (simp add: Encode_def writeProgressive_def clipQuality_def Let_def)

text \<open>
  Claim C4. For every scan script that fails validation (the empty script included) and
  every image, \<open>validateScanScript\<close> returns an error, the script executed is the default
  for the number of components of the image (the grayscale default for one component,
  the colour default otherwise), \<open>Encode\<close> does what it does when the options carry no
  script at all, and the error that \<open>Encode\<close> returns is never the validation error.
\<close>

theorem invalid_script_falls_back:
  assumes "\<not> scriptValid sc (nComponentOf m)"
  shows "validateScanScript sc (nComponentOf m) \<noteq> None \<and>
         chooseScript (nComponentOf m) (Some \<lparr>Quality = q, Progressive = True, ScanScript = Some sc\<rparr>) =
           (if nComponentOf m = 1 then DefaultGrayscaleScanScript else DefaultColorScanScript) \<and>
         Encode x wr m (Some \<lparr>Quality = q, Progressive = True, ScanScript = Some sc\<rparr>) =
           Encode x wr m (Some \<lparr>Quality = q, Progressive = True, ScanScript = None\<rparr>) \<and>
         (\<forall>r wr'. Encode x wr m (Some \<lparr>Quality = q, Progressive = True, ScanScript = Some sc\<rparr>) =
                    Inr (r, wr') \<longrightarrow>
                  r \<noteq> validateScanScript sc (nComponentOf m))"
proof -
  have v: "validateScanScript sc (nComponentOf m) \<noteq> None"
    using assms by (simp add: validateScanScript_None)
  have c1: "chooseScript (nComponentOf m) (Some \<lparr>Quality = q, Progressive = True, ScanScript = Some sc\<rparr>) =
           (if nComponentOf m = 3 then DefaultColorScanScript else DefaultGrayscaleScanScript)"
    using assms by (rule chooseScript_invalid)
  have c2: "chooseScript (nComponentOf m) (Some \<lparr>Quality = q, Progressive = True, ScanScript = None\<rparr>) =
           (if nComponentOf m = 3 then DefaultColorScanScript else DefaultGrayscaleScanScript)"
    using nComponentOf_cases by (rule chooseScript_nil)
  have e: "Encode x wr m (Some \<lparr>Quality = q, Progressive = True, ScanScript = Some sc\<rparr>) =
           Encode x wr m (Some \<lparr>Quality = q, Progressive = True, ScanScript = None\<rparr>)"
    by (rule Encode_chooseScript) (simp add: c1 c2)
  have n: "r \<noteq> validateScanScript sc (nComponentOf m)"
    if "Encode x wr m (Some \<lparr>Quality = q, Progressive = True, ScanScript = Some sc\<rparr>) = Inr (r, wr')"
    for r wr'
  proof (cases "Dx m < 65536 \<and> Dy m < 65536")
    case True
    then have "r = None \<or> r = Some WriteError" using Encode_result that by blast
    then show ?thesis using v validateScanScript_error [of sc "nComponentOf m"] by auto
  next
    case False
    then have r: "r = Some (EncodeError ''jpeg: image is too large to encode'')"
      using that by (auto simp: Encode_def)
    show ?thesis
    proof
      assume "r = validateScanScript sc (nComponentOf m)"
      then have "validateScanScript sc (nComponentOf m) =
                 Some (EncodeError ''jpeg: image is too large to encode'')"
        using r by simp
      from validateScanScript_error [OF this] show False by simp
    qed
  qed
  show ?thesis using v c1 e n nComponentOf_cases [of m] by auto
qed

theorem invalid_script_falls_back_witness:
  "validateScanScript [] 1 = Some (EncodeError ''jpeg: scan script cannot be empty'') \<and>
   validateScanScript [mkScan 1 1 5] 1 = Some (ScanError 0 ''invalid component'') \<and>
   validateScanScript [mkScan 0 0 0, mkScan (- 1) 1 5] 3 =
     Some (ScanError 1 ''AC scan cannot have component -1'') \<and>
   nComponentOf (grayImage 8 8 (replicate 64 0)) = 1 \<and>
   chooseScript 1 (Some \<lparr>Quality = 80, Progressive = True, ScanScript = Some []\<rparr>) =
     [mkScan 0 0 0, mkScan 0 1 9, mkScan 0 10 63] \<and>
   chooseScript 1 (Some \<lparr>Quality = 80, Progressive = True, ScanScript = Some [mkScan 1 1 5]\<rparr>) =
     [mkScan 0 0 0, mkScan 0 1 9, mkScan 0 10 63] \<and>
   Encode idExtern okWriter (grayImage 8 8 (replicate 64 0))
       (Some \<lparr>Quality = 80, Progressive = True, ScanScript = Some []\<rparr>) =
     Encode idExtern okWriter (grayImage 8 8 (replicate 64 0))
       (Some \<lparr>Quality = 80, Progressive = True, ScanScript = None\<rparr>)"
proof -
  have n: "nComponentOf (grayImage 8 8 (replicate 64 0)) = 1"
    by (simp add: nComponentOf_def grayImage_def)
  have a: "\<not> scriptValid [] (nComponentOf (grayImage 8 8 (replicate 64 0)))"
    by (simp add: scriptValid_def)
  have b: "\<not> scriptValid [mkScan 1 1 5] (nComponentOf (grayImage 8 8 (replicate 64 0)))"
    by (simp add: scriptValid_def scanValid_def mkScan_def n)
  have v: "validateScanScript [] 1 = Some (EncodeError ''jpeg: scan script cannot be empty'')"
    "validateScanScript [mkScan 1 1 5] 1 = Some (ScanError 0 ''invalid component'')"
    "validateScanScript [mkScan 0 0 0, mkScan (- 1) 1 5] 3 =
       Some (ScanError 1 ''AC scan cannot have component -1'')"
    by (simp_all add: validateScanScript_def checkScan_def mkScan_def)
  show ?thesis
    using invalid_script_falls_back [OF a, of 80 idExtern okWriter]
      invalid_script_falls_back [OF b, of 80 idExtern okWriter] v n
    by (simp add: DefaultGrayscaleScanScript_def)
qed

section \<open>The end of a progressive scan\<close>

lemma emit_loop_nBits_eq: "unat (nBits (emit_loop e acc n)) = unat n mod 8"
proof (induction e acc n rule: emit_loop.induct)
  case (1 e acc n)
  show ?case
  proof (cases "8 \<le> n")
    case True
    have "unat (n - 8) = unat n - 8" "8 \<le> unat n"
      using True by (simp_all add: unat_sub word_le_nat_alt)
    then have "unat (n - 8) mod 8 = unat n mod 8" by (simp add: le_mod_geq)
    then show ?thesis
      using "1.IH" [OF True refl refl refl] True by (subst emit_loop.simps) (simp add: Let_def)
  next
    case False
    then have "unat n < 8" by (simp add: word_le_nat_alt)
    then show ?thesis using False by (subst emit_loop.simps) simp
  qed
qed

lemma emit_nBits_eq: "unat (nBits (emit e v n)) = unat (n + nBits e) mod 8"
  unfolding emit_def Let_def by (rule emit_loop_nBits_eq)

lemma padToByte_aligned: "nBits (padToByte e) = 0"
proof -
  define e1 where "e1 = emit e 0x7f 7"
  show ?thesis
  proof (cases "nBits e1 = 0")
    case True
    then show ?thesis by (simp add: padToByte_def Let_def e1_def)
  next
    case False
    have "unat (nBits (emit e1 (push_bit (unat (8 - nBits e1)) 1 - 1) (8 - nBits e1))) =
          unat (8 - nBits e1 + nBits e1) mod 8"
      by (rule emit_nBits_eq)
    then have "unat (nBits (emit e1 (push_bit (unat (8 - nBits e1)) 1 - 1) (8 - nBits e1))) = 0"
      by simp
    then have "nBits (emit e1 (push_bit (unat (8 - nBits e1)) 1 - 1) (8 - nBits e1)) = 0"
      by (simp add: unat_eq_0)
    then show ?thesis using False by (simp add: padToByte_def Let_def e1_def)
  qed
qed

lemma finishScan_eq: "finishScan e = (padToByte e)\<lparr>bits := 0, nBits := 0\<rparr>"
  by (simp add: finishScan_def padToByte_def Let_def word_greater_zero_iff)

text \<open>
  Claim C3. Every progressive scan that \<open>writeProgressiveSOS\<close> writes ends as follows,
  from the encoder \<open>e3\<close> that the blocks of the scan leave: the padding \<open>emit(0x7f, 7)\<close>,
  then, if bits remain buffered, their padding to a full byte with \<open>8 - nBits\<close> 1-bits
  (the value \<open>(1 << (8 - nBits)) - 1\<close>), after which no bit is buffered, so that the
  entropy-coded data of the scan ends on a byte boundary; then the reset of the
  accumulator to \<open>bits = 0\<close>, \<open>nBits = 0\<close>, from which the next scan starts.
\<close>

theorem progressive_scan_end:
  assumes "writeProgressiveSOS x e m zs ze a1 a0 component = Inr e'"
  shows "\<exists>e2 e3. processImageBlocks e2 m component
                   (\<lambda>e' b q p. writePartialBlock x e' b q p zs ze) = Inr e3 \<and>
           e' = (padToByte e3)\<lparr>bits := 0, nBits := 0\<rparr> \<and>
           nBits (padToByte e3) = 0 \<and>
           padToByte e3 =
             (if nBits (emit e3 0x7f 7) = 0 then emit e3 0x7f 7
              else emit (emit e3 0x7f 7)
                     (push_bit (unat (8 - nBits (emit e3 0x7f 7))) 1 - 1)
                     (8 - nBits (emit e3 0x7f 7))) \<and>
           bits e' = 0 \<and> nBits e' = 0"
  using assms
proof (cases rule: writeProgressiveSOS_cases)
  case (1 e2 e3)
  have a: "e' = (padToByte e3)\<lparr>bits := 0, nBits := 0\<rparr>" using 1(5) by (simp add: finishScan_eq)
  have b: "padToByte e3 =
             (if nBits (emit e3 0x7f 7) = 0 then emit e3 0x7f 7
              else emit (emit e3 0x7f 7)
                     (push_bit (unat (8 - nBits (emit e3 0x7f 7))) 1 - 1)
                     (8 - nBits (emit e3 0x7f 7)))"
    by (simp add: padToByte_def Let_def)
  have c: "bits e' = 0" "nBits e' = 0" using a by simp_all
  show ?thesis
    by (rule exI [of _ e2], rule exI [of _ e3], intro conjI)
       (rule 1(4), rule a, rule padToByte_aligned, rule b, rule c(1), rule c(2))
qed

theorem progressive_scan_end_witness:
  "accepted (w (projr (writeProgressiveSOS idExtern enc0 (grayImage 0 0 []) 1 5 0 0 0))) =
     [0xff, 0xda, 0x00, 0x08, 0x01, 0x01, 0x00, 0x01, 0x05, 0x00, 0xff, 0x00] \<and>
   bits (projr (writeProgressiveSOS idExtern enc0 (grayImage 0 0 []) 1 5 0 0 0)) = 0 \<and>
   nBits (projr (writeProgressiveSOS idExtern enc0 (grayImage 0 0 []) 1 5 0 0 0)) = 0 \<and>
   nBits (emit (enc0\<lparr>bits := 0xA0000000, nBits := 3\<rparr>) 0x7f 7) = 2 \<and>
   accepted (w (padToByte (enc0\<lparr>bits := 0xA0000000, nBits := 3\<rparr>))) = [0xbf, 0xff, 0x00] \<and>
   nBits (padToByte (enc0\<lparr>bits := 0xA0000000, nBits := 3\<rparr>)) = 0"
proof -
  obtain e' where r: "writeProgressiveSOS idExtern enc0 (grayImage 0 0 []) 1 5 0 0 0 = Inr e'"
    by (simp add: writeProgressiveSOS_def Let_def processImageBlocks_empty grayImage_def)
  have a: "accepted (w (projr (writeProgressiveSOS idExtern enc0 (grayImage 0 0 []) 1 5 0 0 0))) =
     [0xff, 0xda, 0x00, 0x08, 0x01, 0x01, 0x00, 0x01, 0x05, 0x00, 0xff, 0x00]"
    by code_simp
  have b: "nBits (emit (enc0\<lparr>bits := 0xA0000000, nBits := 3\<rparr>) 0x7f 7) = 2"
    "accepted (w (padToByte (enc0\<lparr>bits := 0xA0000000, nBits := 3\<rparr>))) = [0xbf, 0xff, 0x00]"
    by code_simp+
  show ?thesis
    using progressive_scan_end [OF r] r a b padToByte_aligned by auto
qed

section \<open>A scan with spectral start 0 and spectral end above 0\<close>

lemma writePartialBlock_dc_range:
  "0 < se \<Longrightarrow> writePartialBlock x e b q prevDC 0 se = Inr (e, 0)"
  by (simp add: writePartialBlock_def Let_def)

lemma foldE_const:
  assumes "\<And>a s. f a s = Inr s"
  shows "foldE f xs s = Inr s"
  by (induction xs) (simp_all add: assms)

lemma procY_idle:
  "(\<And>e b q d. processor e b q d = Inr (e, 0)) \<Longrightarrow> prevDCY st = 0 \<Longrightarrow>
   procY processor b st = Inr st"
  by (simp add: procY_def)

lemma procCb_idle:
  "(\<And>e b q d. processor e b q d = Inr (e, 0)) \<Longrightarrow> prevDCCb st = 0 \<Longrightarrow>
   procCb processor b st = Inr st"
  by (simp add: procCb_def)

lemma procCr_idle:
  "(\<And>e b q d. processor e b q d = Inr (e, 0)) \<Longrightarrow> prevDCCr st = 0 \<Longrightarrow>
   procCr processor b st = Inr st"
  by (simp add: procCr_def)

text \<open>The states of the loops of \<open>processImageBlocks\<close> whose three predictors are 0.\<close>

lemma foldE_inv:
  assumes "\<And>a s. P s \<Longrightarrow> f a s = Inr s" and "P s"
  shows "foldE f xs s = Inr s"
  by (induction xs) (simp_all add: assms)

lemma processMCU_idle:
  assumes p: "\<And>e b q d. processor e b q d = Inr (e, 0)"
    and z: "prevDCY st = 0 \<and> prevDCCb st = 0 \<and> prevDCCr st = 0"
  shows "processMCU m component processor y xx st = Inr st"
proof -
  have "foldE (\<lambda>i s. if component = - 1 \<or> component = 0
            then procY processor
                   (fst (toBlocks m (xx + int (i AND 1) * 8) (y + int (i AND 2) * 4))) s
            else Inr s) [0..<4] st = Inr st"
    by (rule foldE_inv [where P = "\<lambda>s. prevDCY s = 0"]) (simp_all add: procY_idle [OF p] z)
  then show ?thesis
    unfolding processMCU_def Let_def
    by (simp add: procCb_idle [OF p] procCr_idle [OF p] z)
qed

lemma processImageBlocks_idle:
  assumes p: "\<And>e b q d. processor e b q d = Inr (e, 0)"
  shows "processImageBlocks e m component processor = Inr e"
proof -
  let ?P = "\<lambda>s. prevDCY s = 0 \<and> prevDCCb s = 0 \<and> prevDCCr s = 0"
  let ?st0 = "\<lparr>enc = e, prevDCY = 0, prevDCCb = 0, prevDCCr = 0\<rparr>"
  have Y: "foldE (\<lambda>y. foldE (\<lambda>xx. procY processor (fst (toBlocks m xx y))) xs) ys ?st0 = Inr ?st0"
    for xs ys
    by (rule foldE_inv [where P = ?P], rule foldE_inv [where P = ?P])
       (simp_all add: procY_idle [OF p])
  have M: "foldE (\<lambda>y. foldE (processMCU m component processor y) xs) ys ?st0 = Inr ?st0"
    for xs ys
    by (rule foldE_inv [where P = ?P], rule foldE_inv [where P = ?P])
       (simp_all add: processMCU_idle [OF p])
  show ?thesis
    unfolding processImageBlocks_def Let_def
    by (cases "kind m") (simp_all add: Y M)
qed

text \<open>
  Claim C10, as stated, fails for a component that the image does not have: the
  descriptor with component 5, spectral start 0, spectral end 5 and zero successive
  approximation satisfies the conditions of the claim, and \<open>validateScanScript\<close> rejects
  the script that consists of it for an image of 3 components.
\<close>

theorem dc_range_component_counterexample:
  "0 \<le> Component \<lparr>Component = 5, SpectralStart = 0, SpectralEnd = 5,
                    SuccessiveApproxHigh = 0, SuccessiveApproxLow = 0\<rparr> \<and>
   validateScanScript [\<lparr>Component = 5, SpectralStart = 0, SpectralEnd = 5,
                        SuccessiveApproxHigh = 0, SuccessiveApproxLow = 0\<rparr>] 3 =
     Some (ScanError 0 ''invalid component'')"
  by (simp add: validateScanScript_def checkScan_def)

text \<open>
  Claim C10, amended. For every scan descriptor with a component from 0 to
  \<open>nComponent - 1\<close>, spectral start 0, spectral end from 1 to 63 and zero successive
  approximation fields, the descriptor passes every check of \<open>validateScanScript\<close>, which
  accepts every script made of it and of valid descriptors; yet \<open>writePartialBlock\<close> with
  that range leaves the encoder as it is and returns 0 for every block, so that the pass
  over the blocks of the image writes nothing.
\<close>

theorem dc_range_scan_is_empty:
  assumes "0 \<le> Component s" and "Component s < n"
    and "SpectralStart s = 0" and "0 < SpectralEnd s" and "SpectralEnd s \<le> 63"
    and "SuccessiveApproxHigh s = 0" and "SuccessiveApproxLow s = 0"
  shows "checkScan i s n = None \<and>
         validateScanScript [s] n = None \<and>
         (s \<in> set sc \<and> (\<forall>t \<in> set sc. t \<noteq> s \<longrightarrow> scanValid t n) \<longrightarrow>
            validateScanScript sc n = None) \<and>
         writePartialBlock x e b q prevDC (SpectralStart s) (SpectralEnd s) = Inr (e, 0) \<and>
         processImageBlocks e m (Component s)
           (\<lambda>e' b q p. writePartialBlock x e' b q p (SpectralStart s) (SpectralEnd s)) = Inr e"
proof -
  have v: "scanValid s n" using assms by (simp add: scanValid_def)
  have a: "checkScan i s n = None" using v by (simp add: checkScan_None)
  have b: "validateScanScript [s] n = None"
    using v by (simp add: validateScanScript_None scriptValid_def)
  have c: "validateScanScript sc n = None"
    if "s \<in> set sc \<and> (\<forall>t \<in> set sc. t \<noteq> s \<longrightarrow> scanValid t n)"
    using that v by (auto simp: validateScanScript_None scriptValid_def)
  have d: "writePartialBlock x e' b' q' p' (SpectralStart s) (SpectralEnd s) = Inr (e', 0)"
    for e' b' q' p'
    using assms(3,4) by (simp add: writePartialBlock_dc_range)
  have f: "processImageBlocks e m (Component s)
           (\<lambda>e' b q p. writePartialBlock x e' b q p (SpectralStart s) (SpectralEnd s)) = Inr e"
    by (rule processImageBlocks_idle) (rule d)
  show ?thesis using a b c d f by blast
qed

theorem dc_range_scan_is_empty_witness:
  "validateScanScript [mkScan 0 0 0, mkScan 0 0 5, mkScan 0 6 63] 1 = None \<and>
   writePartialBlock idExtern enc0 (replicate 64 100) 0 0 0 5 = Inr (enc0, 0) \<and>
   processImageBlocks enc0 (grayImage 16 8 (replicate 64 100)) 0
     (\<lambda>e' b q p. writePartialBlock idExtern e' b q p 0 5) = Inr enc0"
proof -
  have v: "scanValid (mkScan 0 0 0) 1" "scanValid (mkScan 0 6 63) 1"
    by (simp_all add: scanValid_def mkScan_def)
  have "mkScan 0 0 5 \<in> set [mkScan 0 0 0, mkScan 0 0 5, mkScan 0 6 63] \<and>
        (\<forall>t \<in> set [mkScan 0 0 0, mkScan 0 0 5, mkScan 0 6 63].
           t \<noteq> mkScan 0 0 5 \<longrightarrow> scanValid t 1)"
    using v by simp
  then show ?thesis
    using dc_range_scan_is_empty [of "mkScan 0 0 5" 1 0
        "[mkScan 0 0 0, mkScan 0 0 5, mkScan 0 6 63]" idExtern enc0 "replicate 64 100" 0 0
        "grayImage 16 8 (replicate 64 100)"]
    by (simp add: mkScan_def)
qed

section \<open>The magnitude category of emitHuffRLE\<close>


















section \<open>The decoder: the successive approximation check\<close>

text \<open>
  Claim C7. For every SOS segment of a progressive frame whose earlier header checks
  pass (the frame has components, the length is right, the header is read, the length
  agrees with the number of components, the components of the scan are accepted, the
  total of the sampling factors is not too large, the spectral bounds are good and an AC
  scan has one component): when \<open>ah\<close> is neither 0 nor \<open>al + 1\<close> the decoder fails with
  the \<open>FormatError\<close> "bad successive approximation values"; when \<open>ah = 0\<close> or
  \<open>ah = al + 1\<close> the check passes and the header is accepted with these values.
\<close>

theorem sos_successive_approximation:
  assumes "d_progressive d"
    and "d_nComp d \<noteq> 0"
    and "\<not> (n < 6 \<or> 4 + 2 * d_nComp d < n \<or> n smod 2 \<noteq> 0)"
    and "readFull io (nat n) r = Inr (tmp, r')"
    and "n = 4 + 2 * uint (tmp ! 0)"
    and "foldE (sosComponent io d tmp) [0..<nat (uint (tmp ! 0))] ([], 0) = Inr (sc, totalHV)"
    and "\<not> (d_nComp d > 1 \<and> totalHV > 10)"
    and "zs = uint (tmp ! nat (1 + 2 * uint (tmp ! 0)))"
    and "ze = uint (tmp ! nat (2 + 2 * uint (tmp ! 0)))"
    and "\<not> ((zs = 0 \<and> ze \<noteq> 0) \<or> zs > ze \<or> 64 \<le> ze)"
    and "\<not> (zs \<noteq> 0 \<and> uint (tmp ! 0) \<noteq> 1)"
    and "a1 = (ucast (drop_bit 4 (tmp ! nat (3 + 2 * uint (tmp ! 0)))) :: uint32)"
    and "a0 = (ucast ((tmp ! nat (3 + 2 * uint (tmp ! 0))) AND 0x0f) :: uint32)"
  shows "(a1 \<noteq> 0 \<and> a1 \<noteq> a0 + 1 \<longrightarrow>
            sosHeader io d n r = Inl (FormatError ''bad successive approximation values'')) \<and>
         (a1 = 0 \<or> a1 = a0 + 1 \<longrightarrow>
            sosHeader io d n r =
              Inr (\<lparr>scan = sc, zigStart = zs, zigEnd = ze, ah = a1, al = a0\<rparr>, r'))"
proof -
  have p: "sosProgression d tmp (uint (tmp ! 0)) =
           (if a1 \<noteq> 0 \<and> a1 \<noteq> a0 + 1
            then Inl (FormatError ''bad successive approximation values'')
            else Inr (zs, ze, a1, a0))"
  proof -
    have bs: "int blockSize = 64" by (simp add: blockSize_def)
    have c1: "\<not> ((zs = 0 \<and> ze \<noteq> 0) \<or> zs > ze \<or> int blockSize \<le> ze)"
      using assms(10) unfolding bs .
    show ?thesis
      unfolding sosProgression_def Let_def assms(8,9,12,13) [symmetric]
      by (simp only: assms(1) if_True if_not_P [OF c1] if_not_P [OF assms(11)])
  qed
  have h: "sosHeader io d n r =
           bindE (sosProgression d tmp (uint (tmp ! 0))) (\<lambda>(zs, ze, a1, a0).
             Inr (\<lparr>scan = sc, zigStart = zs, zigEnd = ze, ah = a1, al = a0\<rparr>, r'))"
  proof -
    have n1: "\<not> d_nComp d = 0" using assms(2) by simp
    have n2: "\<not> n \<noteq> 4 + 2 * uint (tmp ! 0)" using assms(5) by simp
    show ?thesis
      unfolding sosHeader_def Let_def
      by (simp only: if_not_P [OF n1] if_not_P [OF assms(3)] assms(4) bindE_Inr prod.case
          if_not_P [OF n2] assms(6) if_not_P [OF assms(7)])
  qed
  show ?thesis unfolding h p by simp
qed

theorem sos_successive_approximation_witness:
  "sosHeader replayIO grayFrame 6
     \<lparr>rbytes = [0x01, 0x01, 0x00, 0x01, 0x05, 0x31], rsyms = [], rexts = [], rraw = []\<rparr> =
     Inl (FormatError ''bad successive approximation values'') \<and>
   sosHeader replayIO grayFrame 6
     \<lparr>rbytes = [0x01, 0x01, 0x00, 0x01, 0x05, 0x21], rsyms = [], rexts = [], rraw = []\<rparr> =
     Inr (\<lparr>scan = [\<lparr>compIndex = 0, td = 0, ta = 0\<rparr>], zigStart = 1, zigEnd = 5, ah = 2, al = 1\<rparr>,
          \<lparr>rbytes = [], rsyms = [], rexts = [], rraw = []\<rparr>) \<and>
   sosHeader replayIO grayFrame 6
     \<lparr>rbytes = [0x01, 0x01, 0x00, 0x01, 0x05, 0x02], rsyms = [], rexts = [], rraw = []\<rparr> =
     Inr (\<lparr>scan = [\<lparr>compIndex = 0, td = 0, ta = 0\<rparr>], zigStart = 1, zigEnd = 5, ah = 0, al = 2\<rparr>,
          \<lparr>rbytes = [], rsyms = [], rexts = [], rraw = []\<rparr>)"
proof -
  have c: "foldE (sosComponent replayIO grayFrame [0x01, 0x01, 0x00, 0x01, 0x05, b]) [0..<1] ([], 0) =
           Inr ([\<lparr>compIndex = 0, td = 0, ta = 0\<rparr>], 1)" for b
    by (simp add: sosComponent_def findComp_def grayFrame_def replayIO_def Let_def)
  have g: "d_progressive grayFrame" "d_nComp grayFrame \<noteq> 0"
    "\<not> ((6::int) < 6 \<or> 4 + 2 * d_nComp grayFrame < 6 \<or> (6::int) smod 2 \<noteq> 0)"
    "\<not> (d_nComp grayFrame > 1 \<and> (1::int) > 10)"
    by (simp_all add: grayFrame_def signed_modulo_int_def)
  have rf: "readFull replayIO (nat 6)
              \<lparr>rbytes = [0x01, 0x01, 0x00, 0x01, 0x05, b], rsyms = [], rexts = [], rraw = []\<rparr> =
            Inr ([0x01, 0x01, 0x00, 0x01, 0x05, b],
                 \<lparr>rbytes = [], rsyms = [], rexts = [], rraw = []\<rparr>)" for b
    by (simp add: replayIO_def)
  have t: "sosHeader replayIO grayFrame 6
             \<lparr>rbytes = [0x01, 0x01, 0x00, 0x01, 0x05, b], rsyms = [], rexts = [], rraw = []\<rparr> =
           (if (ucast (drop_bit 4 b) :: uint32) \<noteq> 0 \<and>
               (ucast (drop_bit 4 b) :: uint32) \<noteq> ucast (b AND 0x0f) + 1
            then Inl (FormatError ''bad successive approximation values'')
            else Inr (\<lparr>scan = [\<lparr>compIndex = 0, td = 0, ta = 0\<rparr>], zigStart = 1, zigEnd = 5,
                       ah = ucast (drop_bit 4 b), al = ucast (b AND 0x0f)\<rparr>,
                      \<lparr>rbytes = [], rsyms = [], rexts = [], rraw = []\<rparr>))" for b
    using sos_successive_approximation [of grayFrame 6 replayIO _ "[0x01, 0x01, 0x00, 0x01, 0x05, b]"
        _ "[\<lparr>compIndex = 0, td = 0, ta = 0\<rparr>]" 1 1 5 "ucast (drop_bit 4 b)" "ucast (b AND 0x0f)",
        OF g(1) g(2) g(3) rf _ _ g(4)] c [of b]
    by simp
  have v: "(ucast (drop_bit 4 (0x31 :: byte)) :: uint32) = 3"
    "(ucast ((0x31 :: byte) AND 0x0f) :: uint32) = 1"
    "(ucast (drop_bit 4 (0x21 :: byte)) :: uint32) = 2"
    "(ucast ((0x21 :: byte) AND 0x0f) :: uint32) = 1"
    "(ucast (drop_bit 4 (0x02 :: byte)) :: uint32) = 0"
    "(ucast ((0x02 :: byte) AND 0x0f) :: uint32) = 2"
    by code_simp+
  show ?thesis
    using t [of "0x31", unfolded v] t [of "0x21", unfolded v] t [of "0x02", unfolded v]
    by simp
qed

section \<open>The decoder: the DC coefficient of a first scan\<close>

text \<open>
  Claim C1, as stated, fails from the second block of a component on: the value stored
  into coefficient 0 is the predictor after the addition, not the delta. For two blocks
  whose deltas are 5 and 3, with \<open>al = 0\<close>, the second block gets \<open>8\<close> where the claim
  says \<open>3 << 0 = 3\<close>.
\<close>

theorem dc_stores_delta_counterexample:
  "receiveExtend replayIO 2 \<lparr>rbytes = [], rsyms = [], rexts = [3], rraw = []\<rparr> =
     Inr (3, \<lparr>rbytes = [], rsyms = [], rexts = [], rraw = []\<rparr>) \<and>
   decodeFirstScan idExtern replayIO 0 0 0 0 0 0
     \<lparr>rd = \<lparr>rbytes = [], rsyms = [3, 2], rexts = [5, 3], rraw = []\<rparr>,
      eobRun = 0, dc = [0, 0, 0, 0], blk = replicate 64 0\<rparr> =
     Inr \<lparr>rd = \<lparr>rbytes = [], rsyms = [2], rexts = [3], rraw = []\<rparr>,
          eobRun = 0, dc = [5, 0, 0, 0], blk = 5 # replicate 63 0\<rparr> \<and>
   decodeFirstScan idExtern replayIO 0 0 0 0 0 0
     \<lparr>rd = \<lparr>rbytes = [], rsyms = [2], rexts = [3], rraw = []\<rparr>,
      eobRun = 0, dc = [5, 0, 0, 0], blk = replicate 64 0\<rparr> =
     Inr \<lparr>rd = \<lparr>rbytes = [], rsyms = [], rexts = [], rraw = []\<rparr>,
          eobRun = 0, dc = [8, 0, 0, 0], blk = 8 # replicate 63 0\<rparr> \<and>
   (8 :: int32) \<noteq> push_bit 0 3"
  by code_simp

text \<open>
  Claim C1, amended. In a first-scan DC pass of a progressive decode (\<open>ah = 0\<close>,
  \<open>ss = se = 0\<close>), for every block the decoder decodes one Huffman DC category,
  extend-decodes the delta, adds the delta to the DC predictor of the component, and
  stores the new value of the predictor, shifted left by \<open>al\<close>, into coefficient 0 of the
  block; nothing else of the block, of the other predictors or of the end-of-block run
  changes. An error of the Huffman decoding or of the extension is returned, and a
  category above 16 is the \<open>UnsupportedError\<close> "excessive DC component".
\<close>

theorem dc_first_scan:
  assumes "ci < length (dc st)"
  shows "(decodeHuffman io dcTable t1 (rd st) = Inr (v0, r1) \<and> v0 \<le> 16 \<and>
          receiveExtend io v0 r1 = Inr (delta, r2) \<longrightarrow>
            decodeFirstScan x io ci t1 t2 0 0 a0 st =
              Inr (st\<lparr>rd := r2,
                       dc := (dc st)[ci := dc st ! ci + delta],
                       blk := (blk st)[0 := push_bit (unat a0) (dc st ! ci + delta)]\<rparr>)) \<and>
         (decodeHuffman io dcTable t1 (rd st) = Inl p \<longrightarrow>
            decodeFirstScan x io ci t1 t2 0 0 a0 st = Inl p) \<and>
         (decodeHuffman io dcTable t1 (rd st) = Inr (v0, r1) \<and> 16 < v0 \<longrightarrow>
            decodeFirstScan x io ci t1 t2 0 0 a0 st =
              Inl (UnsupportedError ''excessive DC component'')) \<and>
         (decodeHuffman io dcTable t1 (rd st) = Inr (v0, r1) \<and> v0 \<le> 16 \<and>
          receiveExtend io v0 r1 = Inl p \<longrightarrow>
            decodeFirstScan x io ci t1 t2 0 0 a0 st = Inl p)"
  using assms
  by (auto simp: decodeFirstScan_def Let_def decodeAC.simps [of _ _ _ _ 1 0] not_le)

theorem dc_first_scan_witness:
  "decodeFirstScan idExtern replayIO 1 0 0 0 0 2
     \<lparr>rd = \<lparr>rbytes = [], rsyms = [2], rexts = [3], rraw = []\<rparr>,
      eobRun = 4, dc = [5, 7, 0, 0], blk = replicate 64 1\<rparr> =
     Inr \<lparr>rd = \<lparr>rbytes = [], rsyms = [], rexts = [], rraw = []\<rparr>,
          eobRun = 4, dc = [5, 10, 0, 0], blk = (replicate 64 1)[0 := 40]\<rparr> \<and>
   decodeFirstScan idExtern replayIO 1 0 0 0 0 2
     \<lparr>rd = \<lparr>rbytes = [], rsyms = [17], rexts = [3], rraw = []\<rparr>,
      eobRun = 4, dc = [5, 7, 0, 0], blk = replicate 64 1\<rparr> =
     Inl (UnsupportedError ''excessive DC component'')"
proof -
  let ?st = "\<lambda>s. \<lparr>rd = \<lparr>rbytes = [], rsyms = [s], rexts = [3], rraw = []\<rparr>,
                   eobRun = 4, dc = [5, 7, 0, 0], blk = replicate 64 (1 :: int32)\<rparr>"
  have l: "1 < length (dc (?st s))" for s by simp
  have a: "decodeHuffman replayIO dcTable 0 (rd (?st s)) =
           Inr (s, \<lparr>rbytes = [], rsyms = [], rexts = [3], rraw = []\<rparr>)" for s
    by (simp add: replayIO_def)
  have b: "receiveExtend replayIO 2 \<lparr>rbytes = [], rsyms = [], rexts = [3], rraw = []\<rparr> =
           Inr (3, \<lparr>rbytes = [], rsyms = [], rexts = [], rraw = []\<rparr>)"
    by (simp add: replayIO_def)
  have v: "push_bit (unat (2 :: uint32)) (10 :: int32) = 40" "(2 :: byte) \<le> 16"
    "(16 :: byte) < 17"
    by code_simp+
  show ?thesis
    using dc_first_scan [OF l [of 2], of replayIO 0 2
            "\<lparr>rbytes = [], rsyms = [], rexts = [3], rraw = []\<rparr>" 3
            "\<lparr>rbytes = [], rsyms = [], rexts = [], rraw = []\<rparr>" idExtern 0 2]
          dc_first_scan [OF l [of 17], of replayIO 0 17
            "\<lparr>rbytes = [], rsyms = [], rexts = [3], rraw = []\<rparr>" _ _ idExtern 0 2]
          a b v
    by simp
qed
end
